theory Spec2Isabelle
  imports Main "HOL-Library.Word"
begin

section \<open>JavaScript values and builder programs\<close>

text \<open>
  The library is driven by caller-supplied JavaScript: property objects, literal contents
  and functions that call the builder handle they receive.  A function value is represented
  by its source text (what \<open>String(f)\<close> yields) and by the builder calls one invocation
  performs on the handle it is given: \<open>r.elem(tag, props, content)\<close>, a tag shorthand
  \<open>r.tag(a, b)\<close> and \<open>r.text(content)\<close>.  An object is its list of own enumerable
  entries in \<open>Object.entries\<close> order; its \<open>watch\<close> property, when it holds State cells
  (one cell or an array of cells), is kept apart as a list of cell references.  A number is
  an integer from \<open>-2^53\<close> up to \<open>2^53 - 1\<close>, held in 54 bits and read as a signed value:
  each of them is a double that \<open>String\<close> prints in plain decimal digits (the exponent form
  starts at \<open>1e21\<close>).  Fractions, larger magnitudes, \<open>NaN\<close> and the infinities are outside
  this representation; no arithmetic is done on numbers.  Attribute and tag names are taken
  to be valid for the DOM.  A function that does anything but call the handle it receives
  (one that throws, calls \<open>set\<close> while it builds, or reaches into the document itself) is
  outside this representation, and so is a props object that is shared between calls: every
  call sees its props as written.
\<close>

datatype jsval =
    VUndef
  | VNull
  | VBool bool
  | VNum "54 word"
  | VStr string
  | VFun string "cmd list"
  | VObj "nat list option" "(string \<times> jsval) list"
and cmd =
    Elem string jsval jsval
  | Tag string jsval jsval
  | Text jsval

definition typeOf :: "jsval \<Rightarrow> string" where
  "typeOf v = (case v of
      VUndef \<Rightarrow> ''undefined''
    | VNull \<Rightarrow> ''object''
    | VBool _ \<Rightarrow> ''boolean''
    | VNum _ \<Rightarrow> ''number''
    | VStr _ \<Rightarrow> ''string''
    | VFun _ _ \<Rightarrow> ''function''
    | VObj _ _ \<Rightarrow> ''object'')"

definition truthy :: "jsval \<Rightarrow> bool" where
  "truthy v = (case v of
      VUndef \<Rightarrow> False
    | VNull \<Rightarrow> False
    | VBool b \<Rightarrow> b
    | VNum n \<Rightarrow> n \<noteq> 0
    | VStr s \<Rightarrow> s \<noteq> []
    | VFun _ _ \<Rightarrow> True
    | VObj _ _ \<Rightarrow> True)"

fun showNat :: "nat \<Rightarrow> string" where
  "showNat n =
     (if n < 10 then [''0123456789'' ! n]
      else showNat (n div 10) @ [''0123456789'' ! (n mod 10)])"

declare showNat.simps [simp del]

definition showInt :: "int \<Rightarrow> string" where
  "showInt n = (if n < 0 then CHR ''-'' # showNat (nat (- n)) else showNat (nat n))"

text \<open>
  \<open>String(v)\<close>, the coercion behind \<open>setAttribute\<close>, \<open>textContent\<close> and template
  literals.  A number of the represented range prints as its decimal digits, after a minus
  sign when it is negative.
\<close>

definition toString :: "jsval \<Rightarrow> string" where
  "toString v = (case v of
      VUndef \<Rightarrow> ''undefined''
    | VNull \<Rightarrow> ''null''
    | VBool b \<Rightarrow> (if b then ''true'' else ''false'')
    | VNum n \<Rightarrow> showInt (sint n)
    | VStr s \<Rightarrow> s
    | VFun src _ \<Rightarrow> src
    | VObj _ _ \<Rightarrow> ''[object Object]'')"

text \<open>The builder calls a function value performs when invoked; nothing for a non-function.\<close>

definition bodyOf :: "jsval \<Rightarrow> cmd list" where
  "bodyOf v = (case v of VFun _ body \<Rightarrow> body | _ \<Rightarrow> [])"

fun indexEntries :: "nat \<Rightarrow> string \<Rightarrow> (string \<times> jsval) list" where
  "indexEntries i [] = []"
| "indexEntries i (c # cs) = (showNat i, VStr [c]) # indexEntries (Suc i) cs"

text \<open>\<open>Object.entries(v)\<close> for a value other than \<open>null\<close> and \<open>undefined\<close>.\<close>

definition entries :: "jsval \<Rightarrow> (string \<times> jsval) list" where
  "entries v = (case v of
      VObj _ es \<Rightarrow> es
    | VStr s \<Rightarrow> indexEntries 0 s
    | _ \<Rightarrow> [])"

text \<open>\<open>v.watch\<close> and \<open>v.html === true\<close> on a value other than \<open>null\<close> and \<open>undefined\<close>.\<close>

definition watchOf :: "jsval \<Rightarrow> nat list option" where
  "watchOf v = (case v of VObj w _ \<Rightarrow> w | _ \<Rightarrow> None)"

definition htmlFlag :: "jsval \<Rightarrow> bool" where
  "htmlFlag v = (case v of VObj _ es \<Rightarrow> map_of es ''html'' = Some (VBool True) | _ \<Rightarrow> False)"

section \<open>String helpers shared by both modules\<close>

definition isUpper :: "char \<Rightarrow> bool" where
  "isUpper c = (c \<in> set ''ABCDEFGHIJKLMNOPQRSTUVWXYZ'')"

definition toLowerCase :: "char \<Rightarrow> char" where
  "toLowerCase c =
     (case map_of (zip ''ABCDEFGHIJKLMNOPQRSTUVWXYZ'' ''abcdefghijklmnopqrstuvwxyz'') c of
        Some l \<Rightarrow> l | None \<Rightarrow> c)"

text \<open>\<open>str.replace(/[A-Z]/g, letter => `-${letter.toLowerCase()}`)\<close>\<close>

definition camelToKebab :: "string \<Rightarrow> string" where
  "camelToKebab str = concat (map (\<lambda>c. if isUpper c then [CHR ''-'', toLowerCase c] else [c]) str)"

definition booleanAttributes :: "string list" where
  "booleanAttributes =
     [''checked'', ''disabled'', ''required'', ''readonly'', ''selected'',
      ''multiple'', ''hidden'', ''open'', ''novalidate'', ''autoplay'',
      ''controls'', ''default'', ''reversed'', ''async'', ''defer'']"

definition bodyTags :: "string list" where
  "bodyTags =
     [''address'', ''article'', ''aside'', ''footer'', ''header'', ''h1'', ''h2'', ''h3'', ''h4'',
      ''h5'', ''h6'', ''main'', ''nav'', ''section'',
      ''blockquote'', ''dd'', ''div'', ''dl'', ''dt'', ''figcaption'', ''figure'', ''hr'', ''li'',
      ''ol'', ''p'', ''pre'', ''ul'',
      ''a'', ''abbr'', ''b'', ''bdi'', ''bdo'', ''br'', ''cite'', ''code'', ''data'', ''dfn'', ''em'',
      ''i'', ''kbd'', ''mark'',
      ''q'', ''rp'', ''rt'', ''ruby'', ''s'', ''samp'', ''small'', ''span'', ''strong'', ''sub'',
      ''sup'', ''time'', ''u'', ''var'',
      ''img'', ''audio'', ''video'', ''track'',
      ''table'', ''caption'', ''col'', ''colgroup'', ''tbody'', ''td'', ''tfoot'', ''th'', ''thead'',
      ''tr'',
      ''button'', ''datalist'', ''fieldset'', ''form'', ''input'', ''label'', ''legend'', ''meter'',
      ''optgroup'', ''option'',
      ''output'', ''progress'', ''select'', ''textarea'',
      ''canvas'',
      ''svg'', ''circle'', ''rect'', ''text'', ''path'',
      ''iframe'']"

datatype error = AnchorNotFound string | TypeError string

section \<open>rsf-static.js: the static HTML generator\<close>

definition staticTags :: "string list" where
  "staticTags =
     [''html'', ''head'', ''body'', ''title'', ''meta'', ''link'', ''script'', ''style''] @ bodyTags"

definition selfClosingTags :: "string list" where
  "selfClosingTags =
     [''area'', ''base'', ''br'', ''col'', ''embed'', ''hr'', ''img'', ''input'', ''link'', ''meta'',
      ''param'', ''source'', ''track'', ''wbr'']"

text \<open>One \<open>.replace(/c/g, rep)\<close> pass over a string.\<close>

definition replaceAll :: "char \<Rightarrow> string \<Rightarrow> string \<Rightarrow> string" where
  "replaceAll c rep s = concat (map (\<lambda>x. if x = c then rep else [x]) s)"

definition escapeHtml :: "jsval \<Rightarrow> string" where
  "escapeHtml text =
     replaceAll (CHR 0x27) ''&#039;''
       (replaceAll (CHR 0x22) ''&quot;''
         (replaceAll CHR ''>'' ''&gt;''
           (replaceAll CHR ''<'' ''&lt;''
             (replaceAll CHR ''&'' ''&amp;'' (toString text)))))"

fun join :: "string \<Rightarrow> string list \<Rightarrow> string" where
  "join sep [] = []"
| "join sep [x] = x"
| "join sep (x # y # ys) = x @ sep @ join sep (y # ys)"

text \<open>The double quote that delimits attribute values.\<close>

definition dquote :: string where
  "dquote = [CHR 0x22]"

text \<open>
  The callback of \<open>Object.entries(props).forEach\<close> in the static \<open>elem\<close>: the text one
  entry adds to \<open>attrs\<close>, or the TypeError of \<open>Object.entries(null)\<close> for \<open>style: null\<close>.
\<close>

definition staticAttr :: "string \<times> jsval \<Rightarrow> error + string" where
  "staticAttr kv =
     (case kv of (key, val) \<Rightarrow>
        if key = ''watch'' \<or> key = ''html'' then Inr []
        else let attr = camelToKebab key in
          if key = ''style'' then
            (if typeOf val = ''object'' then
               (if val = VNull then Inl (TypeError ''Cannot convert undefined or null to object'')
                else Inr ('' style='' @ dquote
                       @ join ''; '' (map (\<lambda>(k, v). camelToKebab k @ '': '' @ toString v) (entries val))
                       @ dquote))
             else Inr ('' style='' @ dquote @ escapeHtml val @ dquote))
          else if attr \<in> set booleanAttributes then
            (if val = VBool True then Inr ('' '' @ attr) else Inr [])
          else if typeOf val = ''function'' then Inr []
          else Inr ('' '' @ attr @ ''='' @ dquote @ escapeHtml val @ dquote))"

fun staticAttrs :: "string \<Rightarrow> (string \<times> jsval) list \<Rightarrow> error + string" where
  "staticAttrs attrs [] = Inr attrs"
| "staticAttrs attrs (kv # kvs) =
     (case staticAttr kv of
        Inl e \<Rightarrow> Inl e
      | Inr a \<Rightarrow> staticAttrs (attrs @ a) kvs)"

text \<open>
  The static \<open>elem\<close>.  The state is the accumulator \<open>html\<close> of the enclosing \<open>createStatic\<close>
  call; \<open>k\<close> stands for the invocation \<open>childContent(this)\<close>.
\<close>

definition staticElem ::
  "string \<Rightarrow> jsval \<Rightarrow> jsval \<Rightarrow> (string \<Rightarrow> (error + unit) \<times> string) \<Rightarrow> string
     \<Rightarrow> (error + unit) \<times> string" where
  "staticElem tag props0 content k html =
     (let props = (if props0 = VUndef then VObj None [] else props0) in
      if props = VNull then (Inl (TypeError ''Cannot convert undefined or null to object''), html)
      else case staticAttrs [] (entries props) of
        Inl e \<Rightarrow> (Inl e, html)
      | Inr attrs \<Rightarrow>
          let html1 = html @ ''<'' @ tag @ attrs @ ''>'';
              closing = (if tag \<notin> set selfClosingTags then ''</'' @ tag @ ''>'' else [])
          in if typeOf content = ''function'' then
               (case k html1 of
                  (Inl e, html2) \<Rightarrow> (Inl e, html2)
                | (Inr _, html2) \<Rightarrow> (Inr (), html2 @ closing))
             else if content \<noteq> VUndef then
               (if htmlFlag props then (Inr (), html1 @ toString content @ closing)
                else (Inr (), html1 @ escapeHtml content @ closing))
             else (Inr (), html1 @ closing))"

definition staticText :: "jsval \<Rightarrow> string \<Rightarrow> (error + unit) \<times> string" where
  "staticText content html = (Inr (), html @ escapeHtml content)"

lemma size_bodyOf: "size_list size (bodyOf v) \<le> size v"
  by (cases v) (simp_all add: bodyOf_def)

text \<open>
  Running the builder calls of a function against the static handle.  \<open>Tag t a b\<close> is the
  call \<open>r.t(a, b)\<close>: the shorthand wrapper for a listed tag, the \<open>text\<close> method for
  \<open>text\<close>, and a TypeError (\<open>r.t is not a function\<close>) for any other name.
\<close>

function (sequential) staticExec :: "cmd \<Rightarrow> string \<Rightarrow> (error + unit) \<times> string"
and staticExecs :: "cmd list \<Rightarrow> string \<Rightarrow> (error + unit) \<times> string" where
  "staticExec (Elem tag props content) html =
     staticElem tag props content (staticExecs (bodyOf content)) html"
| "staticExec (Tag tag propsOrContent content) html =
     (if tag = ''text'' then staticText propsOrContent html
      else if tag \<in> set staticTags then
        (if typeOf propsOrContent = ''string'' \<or> typeOf propsOrContent = ''function'' then
           staticElem tag (VObj None []) propsOrContent (staticExecs (bodyOf propsOrContent)) html
         else
           staticElem tag (if truthy propsOrContent then propsOrContent else VObj None [])
             content (staticExecs (bodyOf content)) html)
      else (Inl (TypeError (''r.'' @ tag @ '' is not a function'')), html))"
| "staticExec (Text content) html = staticText content html"
| "staticExecs [] html = (Inr (), html)"
| "staticExecs (c # cs) html =
     (case staticExec c html of
        (Inl e, html') \<Rightarrow> (Inl e, html')
      | (Inr _, html') \<Rightarrow> staticExecs cs html')"
  by pat_completeness auto

termination
proof (relation "measure (\<lambda>x. case x of Inl (c, _) \<Rightarrow> size c | Inr (cs, _) \<Rightarrow> size_list size cs)")
  show "wf (measure (\<lambda>x. case x of Inl (c, _) \<Rightarrow> size c | Inr (cs, _) \<Rightarrow> size_list size cs))"
    by simp
qed (auto intro: le_less_trans [OF size_bodyOf])

text \<open>
  \<open>createStatic(renderFn)\<close>: a fresh accumulator, the builder run once, the accumulator
  returned; an exception of the builder propagates and no string is returned.
\<close>

definition createStatic :: "jsval \<Rightarrow> error + string" where
  "createStatic renderFn =
     (if typeOf renderFn = ''function'' then
        (case staticExecs (bodyOf renderFn) [] of
           (Inl e, _) \<Rightarrow> Inl e
         | (Inr _, html) \<Rightarrow> Inr html)
      else Inl (TypeError ''renderFn is not a function''))"

section \<open>rsf.js: the reactive runtime\<close>

definition events :: "string list" where
  "events =
     [''click'', ''dblclick'', ''mousedown'', ''mouseup'', ''mouseover'', ''mouseout'', ''mousemove'',
      ''keydown'', ''keyup'', ''keypress'', ''focus'', ''blur'', ''change'', ''submit'', ''input'',
      ''touchstart'', ''touchend'', ''touchmove'',
      ''drag'', ''dragstart'', ''dragend'', ''dragover'', ''dragenter'', ''dragleave'', ''drop'']"

subsection \<open>The document\<close>

text \<open>
  DOM nodes live in a store; a node reference is its index, and a node created later has a
  larger index.  An element carries its content attributes (\<open>className\<close> is the \<open>class\<close>
  attribute), the properties assigned to its \<open>style\<close> object, its event listeners, the
  expando \<open>_rsfRender\<close> (\<open>VUndef\<close> when never assigned) and its children.  Markup assigned
  through \<open>innerHTML\<close> is kept unparsed as one \<open>Markup\<close> child.
\<close>

record element =
  tagName :: string
  attributes :: "(string \<times> string) list"
  style :: "(string \<times> jsval) list"
  listeners :: "(string \<times> jsval) list"
  rsfRender :: jsval
  childNodes :: "nat list"

datatype node = Element element | TextNode string | Markup string

text \<open>
  A State object; \<open>madeBy\<close> is the \<open>rsf\<close> invocation whose \<open>State\<close> class constructed it
  (the class closes over that invocation's \<open>r\<close> and \<open>stateIdCounter\<close>).
\<close>

record 'v state =
  cvalue :: 'v
  compare :: "'v \<Rightarrow> 'v \<Rightarrow> bool"
  debug :: bool
  stateId :: "string option"
  madeBy :: nat

text \<open>The fields a builder handle owns: \<open>r\<close> itself, or a \<open>tempR\<close> created for one rebuild.\<close>

record handle =
  currentElement :: "nat option"
  parentElement :: "nat option"

text \<open>What one \<open>rsf(anchor, child, options)\<close> invocation closes over.\<close>

record invocation =
  anchor :: string
  child :: jsval
  addTags :: "string list"
  rootElement :: "nat option"
  rHandle :: handle
  stack :: "nat list"
  stateIdCounter :: nat

record 'v world =
  nodes :: "node list"
  documentElement :: nat
  cells :: "nat \<Rightarrow> 'v state"
  nextCell :: nat
  invocations :: "nat \<Rightarrow> invocation"
  nextInvocation :: nat
  console :: "string list"

definition createElement :: "string \<Rightarrow> element" where
  "createElement tag =
     \<lparr>tagName = tag, attributes = [], style = [], listeners = [], rsfRender = VUndef,
      childNodes = []\<rparr>"

definition getAttribute :: "string \<Rightarrow> element \<Rightarrow> string option" where
  "getAttribute name el = map_of (attributes el) name"

fun updateEntry :: "string \<Rightarrow> 'a \<Rightarrow> (string \<times> 'a) list \<Rightarrow> (string \<times> 'a) list" where
  "updateEntry k v [] = [(k, v)]"
| "updateEntry k v (p # ps) = (if fst p = k then (k, v) # ps else p # updateEntry k v ps)"

definition setAttribute :: "string \<Rightarrow> string \<Rightarrow> element \<Rightarrow> element" where
  "setAttribute name val el = el\<lparr>attributes := updateEntry name val (attributes el)\<rparr>"

definition removeAttribute :: "string \<Rightarrow> element \<Rightarrow> element" where
  "removeAttribute name el = el\<lparr>attributes := filter (\<lambda>p. fst p \<noteq> name) (attributes el)\<rparr>"

text \<open>\<open>Object.assign(element.style, value)\<close> for a value of type \<open>object\<close>.\<close>

definition assignStyle :: "jsval \<Rightarrow> element \<Rightarrow> element" where
  "assignStyle val el =
     (if val = VNull then el
      else el\<lparr>style := foldl (\<lambda>st (k, v). updateEntry k v st) (style el) (entries val)\<rparr>)"

text \<open>
  \<open>parent.appendChild(child)\<close> for a node that was just created: it enters the store at the
  next index and the end of the parent's children.  \<open>None\<close> stands for the exception of a
  parent that is not an element.
\<close>

definition appendChild :: "nat \<Rightarrow> node \<Rightarrow> 'v world \<Rightarrow> (nat \<times> 'v world) option" where
  "appendChild p new w =
     (if p < length (nodes w) then
        (case nodes w ! p of
           Element el \<Rightarrow>
             let n = length (nodes w) in
             Some (n, w\<lparr>nodes :=
               (nodes w)[p := Element (el\<lparr>childNodes := childNodes el @ [n]\<rparr>)] @ [new]\<rparr>)
         | _ \<Rightarrow> None)
      else None)"

text \<open>\<open>e.innerHTML = ''\<close>: the children are detached (they stay in the store, unreferenced).\<close>

definition clearChildren :: "nat \<Rightarrow> 'v world \<Rightarrow> 'v world" where
  "clearChildren e w =
     (if e < length (nodes w) then
        (case nodes w ! e of
           Element el \<Rightarrow> w\<lparr>nodes := (nodes w)[e := Element (el\<lparr>childNodes := []\<rparr>)]\<rparr>
         | _ \<Rightarrow> w)
      else w)"

text \<open>
  \<open>e.textContent = s\<close> (with \<open>leaf = TextNode\<close>) and \<open>e.innerHTML = s\<close> (with
  \<open>leaf = Markup\<close>): the children are replaced by one new leaf, or by nothing when \<open>s\<close> is
  empty.
\<close>

definition setContent :: "(string \<Rightarrow> node) \<Rightarrow> nat \<Rightarrow> string \<Rightarrow> 'v world \<Rightarrow> 'v world" where
  "setContent leaf e s w =
     (if s = [] then clearChildren e w
      else case appendChild e (leaf s) (clearChildren e w) of
             Some (_, w') \<Rightarrow> w' | None \<Rightarrow> w)"

text \<open>
  \<open>document.querySelectorAll('[data-rsf-watching]')\<close>: the elements of the document in tree
  order that bear the attribute, as a static list.  The walk is bounded by the number of
  nodes in the store, which no path of a tree exceeds.
\<close>

fun descendants :: "nat \<Rightarrow> node list \<Rightarrow> nat \<Rightarrow> nat list" where
  "descendants 0 ns n = []"
| "descendants (Suc fuel) ns n =
     (if n < length ns then
        (case ns ! n of
           Element el \<Rightarrow> n # concat (map (descendants fuel ns) (childNodes el))
         | _ \<Rightarrow> [])
      else [])"

definition hasAttribute :: "string \<Rightarrow> node \<Rightarrow> bool" where
  "hasAttribute name nd = (case nd of Element el \<Rightarrow> getAttribute name el \<noteq> None | _ \<Rightarrow> False)"

definition querySelectorAll :: "'v world \<Rightarrow> nat list" where
  "querySelectorAll w =
     filter (\<lambda>n. hasAttribute ''data-rsf-watching'' (nodes w ! n))
       (descendants (length (nodes w)) (nodes w) (documentElement w))"

subsection \<open>The builder: elem, text and the tag shorthands\<close>

text \<open>
  The loop of \<open>elem\<close> that gives a State its identity the first time it is watched:
  \<open>if (!state._stateId) state._stateId = `state-${stateIdCounter++}`\<close>, with the counter of
  the invocation \<open>i\<close> whose \<open>elem\<close> is running.
\<close>

fun assignIds :: "nat \<Rightarrow> nat list \<Rightarrow> 'v world \<Rightarrow> 'v world" where
  "assignIds i [] w = w"
| "assignIds i (s # ss) w =
     assignIds i ss
       (if stateId (cells w s) = None \<or> stateId (cells w s) = Some [] then
          w\<lparr>cells := (cells w)(s := (cells w s)
                \<lparr>stateId := Some (''state-'' @ showNat (stateIdCounter (invocations w i)))\<rparr>),
            invocations := (invocations w)(i := (invocations w i)
                \<lparr>stateIdCounter := Suc (stateIdCounter (invocations w i))\<rparr>)\<rparr>
        else w)"

definition stateIdString :: "'v state \<Rightarrow> string" where
  "stateIdString s = (case stateId s of Some x \<Rightarrow> x | None \<Rightarrow> [])"

text \<open>The body of \<open>if (props.watch) { ... }\<close> in \<open>elem\<close>.\<close>

definition registerWatch ::
  "nat \<Rightarrow> nat list \<Rightarrow> jsval \<Rightarrow> element \<Rightarrow> 'v world \<Rightarrow> element \<times> 'v world" where
  "registerWatch i watchArray childContent el w =
     (let w1 = assignIds i watchArray w;
          el1 = setAttribute ''data-rsf-watching''
                  (join '','' (map (\<lambda>s. stateIdString (cells w1 s)) watchArray)) el
      in (el1\<lparr>rsfRender := childContent\<rparr>, w1))"

text \<open>The callback of \<open>Object.entries(props).forEach\<close> in \<open>elem\<close>.\<close>

definition applyProp :: "element \<Rightarrow> string \<times> jsval \<Rightarrow> element" where
  "applyProp el kv =
     (case kv of (key, val) \<Rightarrow>
        let attr = camelToKebab key in
        if key = ''class'' then setAttribute ''class'' (toString val) el
        else if key = ''style'' then
          (if typeOf val = ''object'' then assignStyle val el
           else setAttribute ''style'' (toString val) el)
        else if attr \<in> set events then el\<lparr>listeners := listeners el @ [(attr, val)]\<rparr>
        else if attr \<in> set booleanAttributes then
          (if val = VBool True then setAttribute attr [] el
           else if val = VBool False then removeAttribute attr el
           else el)
        else setAttribute attr (toString val) el)"

text \<open>
  \<open>elem(tag, props, content)\<close> called on a handle of invocation \<open>i\<close>.  The state is the pair
  of the handle's own fields and the world; \<open>k\<close> stands for the invocation
  \<open>childContent(this)\<close>.  An exception leaves the state as it was when it was thrown.
\<close>

definition elem ::
  "nat \<Rightarrow> string \<Rightarrow> jsval \<Rightarrow> jsval
     \<Rightarrow> (handle \<times> 'v world \<Rightarrow> (error + unit) \<times> handle \<times> 'v world)
     \<Rightarrow> handle \<times> 'v world \<Rightarrow> (error + nat) \<times> handle \<times> 'v world" where
  "elem i tag props0 content k hw =
     (case hw of (h, w) \<Rightarrow>
      let props = (if props0 = VUndef then VObj None [] else props0) in
      if props = VNull then
        (Inl (TypeError ''Cannot read properties of null (reading watch)''), h, w)
      else
        case (case watchOf props of
                Some watchArray \<Rightarrow> registerWatch i watchArray content (createElement tag) w
              | None \<Rightarrow> (createElement tag, w)) of
          (el, w1) \<Rightarrow>
        case currentElement h of
          None \<Rightarrow> (Inl (TypeError ''Cannot read properties of null (reading appendChild)''), h, w1)
        | Some parent \<Rightarrow>
        (case appendChild parent (Element (foldl applyProp el (entries props))) w1 of
          None \<Rightarrow> (Inl (TypeError ''Cannot append to the current element''), h, w1)
        | Some (e, w2) \<Rightarrow>
            if typeOf content = ''function'' then
              (case k (h\<lparr>currentElement := Some e, parentElement := Some parent\<rparr>,
                       w2\<lparr>invocations := (invocations w2)(i := (invocations w2 i)
                            \<lparr>stack := stack (invocations w2 i) @ [parent]\<rparr>)\<rparr>) of
                 (Inl err, hw') \<Rightarrow> (Inl err, hw')
               | (Inr _, h', w') \<Rightarrow>
                   let st = stack (invocations w' i);
                       st' = butlast st
                   in (Inr e,
                       h'\<lparr>currentElement := (if st = [] then None else Some (last st)),
                          parentElement := (if st' = [] then None else Some (last st'))\<rparr>,
                       w'\<lparr>invocations := (invocations w')(i := (invocations w' i)\<lparr>stack := st'\<rparr>)\<rparr>))
            else if content \<noteq> VUndef then
              (Inr e, h,
               setContent (if htmlFlag props then Markup else TextNode) e (toString content) w2)
            else (Inr e, h, w2)))"

definition text_node :: "jsval \<Rightarrow> handle \<times> 'v world \<Rightarrow> (error + nat) \<times> handle \<times> 'v world" where
  "text_node content hw =
     (case hw of (h, w) \<Rightarrow>
        case currentElement h of
          None \<Rightarrow> (Inl (TypeError ''Cannot read properties of null (reading appendChild)''), h, w)
        | Some parent \<Rightarrow>
            (case appendChild parent (TextNode (toString content)) w of
               None \<Rightarrow> (Inl (TypeError ''Cannot append to the current element''), h, w)
             | Some (n, w') \<Rightarrow> (Inr n, h, w')))"

text \<open>Whether \<open>r[tag]\<close> is one of the shorthand wrappers installed by \<open>rsf\<close>.\<close>

definition hasShorthand :: "invocation \<Rightarrow> string \<Rightarrow> bool" where
  "hasShorthand r tag = ((tag \<in> set bodyTags \<and> tag \<noteq> ''text'') \<or> tag \<in> set (addTags r))"

function (sequential)
  exec :: "nat \<Rightarrow> cmd \<Rightarrow> handle \<times> 'v world \<Rightarrow> (error + nat) \<times> handle \<times> 'v world"
and execs :: "nat \<Rightarrow> cmd list \<Rightarrow> handle \<times> 'v world \<Rightarrow> (error + unit) \<times> handle \<times> 'v world"
where
  "exec i (Elem tag props content) hw = elem i tag props content (execs i (bodyOf content)) hw"
| "exec i (Tag tag propsOrContent content) hw =
     (if hasShorthand (invocations (snd hw) i) tag then
        (if typeOf propsOrContent = ''string'' \<or> typeOf propsOrContent = ''function'' then
           elem i tag (VObj None []) propsOrContent (execs i (bodyOf propsOrContent)) hw
         else
           elem i tag (if truthy propsOrContent then propsOrContent else VObj None [])
             content (execs i (bodyOf content)) hw)
      else if tag = ''text'' then text_node propsOrContent hw
      else (Inl (TypeError (''r.'' @ tag @ '' is not a function'')), hw))"
| "exec i (Text content) hw = text_node content hw"
| "execs i [] hw = (Inr (), hw)"
| "execs i (c # cs) hw =
     (case exec i c hw of
        (Inl e, hw') \<Rightarrow> (Inl e, hw')
      | (Inr _, hw') \<Rightarrow> execs i cs hw')"
  by pat_completeness auto

termination
proof (relation "measure (\<lambda>x. case x of Inl (_, c, _) \<Rightarrow> size c | Inr (_, cs, _) \<Rightarrow> size_list size cs)")
  show "wf (measure (\<lambda>x. case x of Inl (_, c, _) \<Rightarrow> size c
                                   | Inr (_ :: nat, cs, _ :: handle \<times> 'v world) \<Rightarrow> size_list size cs))"
    by simp
qed (auto intro: le_less_trans [OF size_bodyOf])

subsection \<open>State\<close>

text \<open>\<open>new r.State(initialValue, options)\<close> through the \<open>State\<close> class of invocation \<open>i\<close>.\<close>

definition State ::
  "nat \<Rightarrow> 'v \<Rightarrow> ('v \<Rightarrow> 'v \<Rightarrow> bool) option \<Rightarrow> bool option \<Rightarrow> 'v world \<Rightarrow> nat \<times> 'v world" where
  "State i initialValue optCompare optDebug w =
     (nextCell w,
      w\<lparr>cells := (cells w)(nextCell w :=
           \<lparr>cvalue = initialValue,
            compare = (case optCompare of Some f \<Rightarrow> f | None \<Rightarrow> (\<lambda>a b. a = b)),
            debug = (case optDebug of Some d \<Rightarrow> d | None \<Rightarrow> False),
            stateId = None,
            madeBy = i\<rparr>),
        nextCell := Suc (nextCell w)\<rparr>)"

fun forEach ::
  "('a \<Rightarrow> 's \<Rightarrow> (error + unit) \<times> 's) \<Rightarrow> 'a list \<Rightarrow> 's \<Rightarrow> (error + unit) \<times> 's" where
  "forEach f [] s = (Inr (), s)"
| "forEach f (x # xs) s =
     (case f x s of
        (Inl e, s') \<Rightarrow> (Inl e, s')
      | (Inr _, s') \<Rightarrow> forEach f xs s')"

text \<open>\<open>str.split(',')\<close>\<close>

fun split :: "char \<Rightarrow> string \<Rightarrow> string list" where
  "split sep [] = [[]]"
| "split sep (c # cs) =
     (if c = sep then [] # split sep cs
      else case split sep cs of
             x # xs \<Rightarrow> (c # x) # xs
           | [] \<Rightarrow> [[c]])"

text \<open>\<open>watching.includes(this._stateId)\<close>; an unassigned identity is \<open>undefined\<close>.\<close>

definition arrayIncludes :: "string list \<Rightarrow> string option \<Rightarrow> bool" where
  "arrayIncludes watching sid = (case sid of Some x \<Rightarrow> x \<in> set watching | None \<Rightarrow> False)"

text \<open>The callback of \<open>forEach\<close> in \<open>notifyElements\<close>, for the State \<open>c\<close>.\<close>

definition notifyElement :: "nat \<Rightarrow> nat \<Rightarrow> 'v world \<Rightarrow> (error + unit) \<times> 'v world" where
  "notifyElement c element w =
     (case nodes w ! element of
        Element el \<Rightarrow>
          (case getAttribute ''data-rsf-watching'' el of
             None \<Rightarrow> (Inl (TypeError ''Cannot read properties of null (reading split)''), w)
           | Some marker \<Rightarrow>
               if arrayIncludes (split CHR '','' marker) (stateId (cells w c)) then
                 let renderFn = rsfRender el in
                 if truthy renderFn then
                   let w1 = clearChildren element w;
                       i = madeBy (cells w c);
                       tempR = (rHandle (invocations w1 i))\<lparr>currentElement := Some element\<rparr>
                   in if typeOf renderFn = ''function'' then
                        (case execs i (bodyOf renderFn) (tempR, w1) of
                           (Inl e, _, w2) \<Rightarrow> (Inl e, w2)
                         | (Inr _, _, w2) \<Rightarrow> (Inr (), w2))
                      else (Inl (TypeError ''renderFn is not a function''), w1)
                 else (Inr (), w)
               else (Inr (), w))
      | _ \<Rightarrow> (Inr (), w))"

definition notifyElements :: "nat \<Rightarrow> 'v world \<Rightarrow> (error + unit) \<times> 'v world" where
  "notifyElements c w = forEach (notifyElement c) (querySelectorAll w) w"

definition State_get :: "nat \<Rightarrow> 'v world \<Rightarrow> 'v" where
  "State_get c w = cvalue (cells w c)"

definition State_set :: "nat \<Rightarrow> 'v \<Rightarrow> bool \<Rightarrow> 'v world \<Rightarrow> (error + unit) \<times> 'v world" where
  "State_set c newValue force w =
     (if \<not> compare (cells w c) (cvalue (cells w c)) newValue \<or> force then
        notifyElements c (w\<lparr>cells := (cells w)(c := (cells w c)\<lparr>cvalue := newValue\<rparr>)\<rparr>)
      else (Inr (), w))"

definition State_update :: "nat \<Rightarrow> ('v \<Rightarrow> 'v) \<Rightarrow> bool \<Rightarrow> 'v world \<Rightarrow> (error + unit) \<times> 'v world" where
  "State_update c updaterFn force w =
     (let currentValue = State_get c w;
          newValue = updaterFn currentValue
      in State_set c newValue force w)"

subsection \<open>init, render and rsf\<close>

text \<open>
  \<open>querySelector\<close> is the selector engine of the browser: it maps the anchor selector,
  the node store and the root of the document to the first matching element, or to nothing.
\<close>

definition init ::
  "(string \<Rightarrow> node list \<Rightarrow> nat \<Rightarrow> nat option) \<Rightarrow> nat \<Rightarrow> 'v world \<Rightarrow> (error + unit) \<times> 'v world" where
  "init querySelector i w =
     (let r = invocations w i;
          found = querySelector (anchor r) (nodes w) (documentElement w);
          w1 = w\<lparr>invocations := (invocations w)(i := r\<lparr>rootElement := found\<rparr>)\<rparr>
      in case found of
           None \<Rightarrow> (Inl (AnchorNotFound (anchor r)), w1)
         | Some e \<Rightarrow>
             (Inr (), w1\<lparr>invocations := (invocations w1)(i := (invocations w1 i)
                           \<lparr>rHandle := (rHandle (invocations w1 i))\<lparr>currentElement := Some e\<rparr>\<rparr>)\<rparr>))"

definition render ::
  "(string \<Rightarrow> node list \<Rightarrow> nat \<Rightarrow> nat option) \<Rightarrow> nat \<Rightarrow> 'v world \<Rightarrow> (error + unit) \<times> 'v world" where
  "render querySelector i w =
     (case init querySelector i w of
        (Inl e, w1) \<Rightarrow> (Inl e, w1)
      | (Inr _, w1) \<Rightarrow>
          let w2 = (case rootElement (invocations w1 i) of
                      Some e \<Rightarrow> clearChildren e w1 | None \<Rightarrow> w1);
              r = invocations w2 i
          in if typeOf (child r) = ''function'' then
               (case execs i (bodyOf (child r)) (rHandle r, w2) of
                  (res, h3, w3) \<Rightarrow>
                    (res, w3\<lparr>invocations := (invocations w3)(i := (invocations w3 i)\<lparr>rHandle := h3\<rparr>)\<rparr>))
             else (Inl (TypeError ''this.child is not a function''), w2))"

text \<open>
  \<open>rsf(anchor, child, options)\<close>: a new closure with \<open>stateIdCounter = 0\<close> and an empty
  stack, then \<open>r.render()\<close>.  The result is the index of the invocation, standing for the
  returned \<open>r\<close>.
\<close>

definition rsf ::
  "(string \<Rightarrow> node list \<Rightarrow> nat \<Rightarrow> nat option) \<Rightarrow> string \<Rightarrow> jsval \<Rightarrow> string list \<Rightarrow> 'v world
     \<Rightarrow> (error + nat) \<times> 'v world" where
  "rsf querySelector anchorSel childFn optAddTags w =
     (let i = nextInvocation w;
          r = \<lparr>anchor = anchorSel, child = childFn, addTags = optAddTags, rootElement = None,
               rHandle = \<lparr>currentElement = None, parentElement = None\<rparr>,
               stack = [], stateIdCounter = 0\<rparr>;
          w0 = w\<lparr>invocations := (invocations w)(i := r), nextInvocation := Suc i\<rparr>
      in case render querySelector i w0 of
           (Inl e, w1) \<Rightarrow> (Inl e, w1)
         | (Inr _, w1) \<Rightarrow> (Inr i, w1))"

subsection \<open>A selector engine for id selectors\<close>

text \<open>
  The instance of \<open>querySelector\<close> used in the worked examples: it resolves \<open>#name\<close> to the
  first element of the document whose \<open>id\<close> attribute is \<open>name\<close>, and nothing else.
\<close>

definition idSelector :: "string \<Rightarrow> node list \<Rightarrow> nat \<Rightarrow> nat option" where
  "idSelector sel ns root =
     (case sel of
        [] \<Rightarrow> None
      | c # name \<Rightarrow>
          if c = CHR ''#'' then
            find (\<lambda>n. case ns ! n of
                         Element el \<Rightarrow> getAttribute ''id'' el = Some name
                       | _ \<Rightarrow> False)
              (descendants (length ns) ns root)
          else None)"

text \<open>
  A page with two empty containers, \<open><div id="a">\<close> and \<open><div id="b">\<close>, under the root
  element, and States that compare with \<open>===\<close> and have never been watched.
\<close>

definition page :: "int world" where
  "page =
     \<lparr>nodes =
        [Element ((createElement ''html'')\<lparr>childNodes := [1, 2]\<rparr>),
         Element (setAttribute ''id'' ''a'' (createElement ''div'')),
         Element (setAttribute ''id'' ''b'' (createElement ''div''))],
      documentElement = 0,
      cells = (\<lambda>c. \<lparr>cvalue = 0, compare = (\<lambda>a b. a = b), debug = False, stateId = None,
                     madeBy = c\<rparr>),
      nextCell = 2,
      invocations = (\<lambda>_. \<lparr>anchor = [], child = VUndef, addTags = [], rootElement = None,
                            rHandle = \<lparr>currentElement = None, parentElement = None\<rparr>,
                            stack = [], stateIdCounter = 0\<rparr>),
      nextInvocation = 0,
      console = []\<rparr>"

section \<open>Vocabulary of the properties\<close>

definition childrenOf :: "node list \<Rightarrow> nat \<Rightarrow> nat list" where
  "childrenOf ns n = (case ns ! n of Element el \<Rightarrow> childNodes el | _ \<Rightarrow> [])"

definition withChildren :: "nat list \<Rightarrow> node \<Rightarrow> node" where
  "withChildren cs nd = (case nd of Element el \<Rightarrow> Element (el\<lparr>childNodes := cs\<rparr>) | _ \<Rightarrow> nd)"

definition attributeOf :: "node list \<Rightarrow> nat \<Rightarrow> string \<Rightarrow> string option" where
  "attributeOf ns n name = (case ns ! n of Element el \<Rightarrow> getAttribute name el | _ \<Rightarrow> None)"

definition renderOf :: "node list \<Rightarrow> nat \<Rightarrow> jsval" where
  "renderOf ns n = (case ns ! n of Element el \<Rightarrow> rsfRender el | _ \<Rightarrow> VUndef)"

text \<open>
  \<open>grown cur ns ns'\<close>: the store \<open>ns'\<close> comes from \<open>ns\<close> by building under the insertion
  parent \<open>cur\<close>.  No node is removed, every earlier node except \<open>cur\<close> is as it was, and
  \<open>cur\<close> differs at most in its children, which gained nodes created since.
\<close>

definition grown :: "nat option \<Rightarrow> node list \<Rightarrow> node list \<Rightarrow> bool" where
  "grown cur ns ns' \<longleftrightarrow>
     length ns \<le> length ns' \<and>
     (\<forall>n < length ns. Some n \<noteq> cur \<longrightarrow> ns' ! n = ns ! n) \<and>
     (\<forall>p < length ns. cur = Some p \<longrightarrow>
        ns' ! p = withChildren (childrenOf ns' p) (ns ! p) \<and>
        (\<exists>new. childrenOf ns' p = childrenOf ns p @ new \<and> (\<forall>m \<in> set new. length ns \<le> m)))"

text \<open>
  \<open>eligible w c n\<close>: the callback of \<open>notifyElements\<close> for the State \<open>c\<close> rebuilds the node
  \<open>n\<close>: it is an element whose marker lists the identity of \<open>c\<close> and whose stored rebuild
  procedure is truthy.
\<close>

definition eligible :: "'v world \<Rightarrow> nat \<Rightarrow> nat \<Rightarrow> bool" where
  "eligible w c n =
     (case attributeOf (nodes w) n ''data-rsf-watching'' of
        Some marker \<Rightarrow>
          arrayIncludes (split CHR '','' marker) (stateId (cells w c))
          \<and> truthy (renderOf (nodes w) n)
      | None \<Rightarrow> False)"

text \<open>
  \<open>rebuiltFrom ns ns' n\<close>: in \<open>ns'\<close> the node \<open>n\<close> of \<open>ns\<close> has been rebuilt.  It is the same
  node except for its children, all its children were created after \<open>ns\<close>, and there is one
  child for each builder call its stored procedure makes at its top level.
\<close>

definition rebuiltFrom :: "node list \<Rightarrow> node list \<Rightarrow> nat \<Rightarrow> bool" where
  "rebuiltFrom ns ns' n \<longleftrightarrow>
     ns' ! n = withChildren (childrenOf ns' n) (ns ! n) \<and>
     (\<forall>m \<in> set (childrenOf ns' n). length ns \<le> m) \<and>
     length (childrenOf ns' n) = length (bodyOf (renderOf ns n))"

text \<open>
  \<open>kept w w'\<close>: what building never changes.  The document root, the console, and of every
  State its value, comparator, debug flag and constructor; an identity, once assigned, stays.
\<close>

definition kept :: "'v world \<Rightarrow> 'v world \<Rightarrow> bool" where
  "kept w w' \<longleftrightarrow>
     documentElement w' = documentElement w \<and>
     console w' = console w \<and>
     nextCell w' = nextCell w \<and>
     (\<forall>c. cvalue (cells w' c) = cvalue (cells w c) \<and>
          compare (cells w' c) = compare (cells w c) \<and>
          debug (cells w' c) = debug (cells w c) \<and>
          madeBy (cells w' c) = madeBy (cells w c) \<and>
          (stateId (cells w c) \<noteq> None \<and> stateId (cells w c) \<noteq> Some [] \<longrightarrow>
             stateId (cells w' c) = stateId (cells w c)))"

text \<open>
  \<open>built i n hw out\<close>: \<open>out\<close> is the outcome of a run of builder calls on a handle of
  invocation \<open>i\<close> from the state \<open>hw\<close>, making \<open>n\<close> calls at its top level.  Whatever the
  outcome, the store has grown under the insertion parent; on a normal return the insertion
  parent and the stack are restored and the parent has gained exactly \<open>n\<close> children.
\<close>

definition built ::
  "nat \<Rightarrow> nat \<Rightarrow> handle \<times> 'v world \<Rightarrow> (error + 'a) \<times> handle \<times> 'v world \<Rightarrow> bool" where
  "built i n hw out \<longleftrightarrow>
     grown (currentElement (fst hw)) (nodes (snd hw)) (nodes (snd (snd out))) \<and>
     kept (snd hw) (snd (snd out)) \<and>
     (\<not> isl (fst out) \<longrightarrow>
        currentElement (fst (snd out)) = currentElement (fst hw) \<and>
        stack (invocations (snd (snd out)) i) = stack (invocations (snd hw) i) \<and>
        (\<forall>p < length (nodes (snd hw)). currentElement (fst hw) = Some p \<longrightarrow>
           length (childrenOf (nodes (snd (snd out))) p)
             = length (childrenOf (nodes (snd hw)) p) + n))"

subsection \<open>Worked inputs\<close>

text \<open>A handle whose insertion parent is the container \<open>#a\<close> of the page.\<close>

definition atA :: handle where
  "atA = \<lparr>currentElement = Some 1, parentElement = None\<rparr>"

text \<open>
  \<open>r.elem('div', {}, r => { r.elem('ul', {}, r => { r.li(r => { r.text('deep') }) }) })\<close>:
  three nested child-producing calls around one text node.
\<close>

definition threeDeep :: cmd where
  "threeDeep =
     Elem ''div'' (VObj None [])
       (VFun ''r => r.elem(ul, ...)''
         [Elem ''ul'' (VObj None [])
           (VFun ''r => r.li(...)''
             [Tag ''li'' (VFun ''r => r.text(deep)'' [Text (VStr ''deep'')]) VUndef])])"

text \<open>
  \<open>r.elem('input', { type: 'checkbox', checked: true, disabled: false, hidden: 'false' })\<close>
\<close>

definition checkboxProps :: "(string \<times> jsval) list" where
  "checkboxProps =
     [(''type'', VStr ''checkbox''), (''checked'', VBool True), (''disabled'', VBool False),
      (''hidden'', VStr ''false'')]"

definition checkbox :: cmd where
  "checkbox = Elem ''input'' (VObj None checkboxProps) VUndef"

text \<open>
  \<open>r => { r.p({ click: handler, title: 'a<b' }, '1 < 2') }\<close> and its props object.
\<close>

definition paragraphProps :: jsval where
  "paragraphProps = VObj None [(''click'', VFun ''handler'' []), (''title'', VStr ''a<b'')]"

definition paragraphCalls :: "cmd list" where
  "paragraphCalls = [Tag ''p'' paragraphProps (VStr ''1 < 2'')]"

text \<open>
  Two applications on the page, each in its own \<open>rsf\<close> call with its own State:
  \<open>rsf('#a', r => { r.div({ watch: a }, r => { r.text('A') }) })\<close> and the same under
  \<open>#b\<close> with the State \<open>b\<close> and the text \<open>B\<close>.  The States are the cells 0 and 1.
\<close>

definition watcherA :: jsval where
  "watcherA =
     VFun ''r => r.div({ watch: a }, ...)''
       [Tag ''div'' (VObj (Some [0]) []) (VFun ''r => r.text(A)'' [Text (VStr ''A'')])]"

definition watcherB :: jsval where
  "watcherB =
     VFun ''r => r.div({ watch: b }, ...)''
       [Tag ''div'' (VObj (Some [1]) []) (VFun ''r => r.text(B)'' [Text (VStr ''B'')])]"


text \<open>
  \<open>rsf('#a', r => { r.div({ watch: b }, r => { r.div({ watch: a }, r => { r.text('A') });
  r.p({ watch: a }, 0) }) })\<close>: a watcher of the State \<open>b\<close> (cell 1) that contains a
  watcher of the State \<open>a\<close> (cell 0) and a paragraph that watches \<open>a\<close> with the literal
  content \<open>0\<close>.
\<close>

definition nestedWatchers :: jsval where
  "nestedWatchers =
     VFun ''r => r.div({ watch: b }, ...)''
       [Tag ''div'' (VObj (Some [1]) [])
          (VFun ''r => { r.div({ watch: a }, ...); r.p({ watch: a }, 0) }''
             [Tag ''div'' (VObj (Some [0]) []) (VFun ''r => r.text(A)'' [Text (VStr ''A'')]),
              Tag ''p'' (VObj (Some [0]) []) (VNum 0)])]"

text \<open>The page after \<open>rsf('#a', watcherA)\<close>.\<close>

definition appA :: "int world" where
  "appA = snd (rsf idSelector ''#a'' watcherA [] page)"

text \<open>\<open>rsf('#a', r => { r.p({ watch: a }, 0) })\<close>: a watcher with the literal content \<open>0\<close>.\<close>

definition zeroWatcher :: jsval where
  "zeroWatcher =
     VFun ''r => r.p({ watch: a }, 0)'' [Tag ''p'' (VObj (Some [0]) []) (VNum 0)]"

text \<open>The page after \<open>rsf('#a', zeroWatcher)\<close>.\<close>

definition zeroApp :: "int world" where
  "zeroApp = snd (rsf idSelector ''#a'' zeroWatcher [] page)"

text \<open>
  \<open>rsf('#a', r => { r.div({ watch: a }, r => { r.text('A') }); r.p({ watch: a }, 'hello') })\<close>:
  a watcher with a content function, followed by a watcher of the same State with a
  literal content; and the page after this call.
\<close>

definition mixedWatchers :: jsval where
  "mixedWatchers =
     VFun ''r => { r.div({ watch: a }, ...); r.p({ watch: a }, hello) }''
       [Tag ''div'' (VObj (Some [0]) []) (VFun ''r => r.text(A)'' [Text (VStr ''A'')]),
        Tag ''p'' (VObj (Some [0]) []) (VStr ''hello'')]"

definition mixedApp :: "int world" where
  "mixedApp = snd (rsf idSelector ''#a'' mixedWatchers [] page)"

text \<open>
  \<open>rsf('#a', r => { r.p({ watch: a }, 'hello'); r.p({ watch: a }, 'world') })\<close>: two
  watchers of one State, each with a literal content; and the page after this call.
\<close>

definition twoLiterals :: jsval where
  "twoLiterals =
     VFun ''r => { r.p({ watch: a }, hello); r.p({ watch: a }, world) }''
       [Tag ''p'' (VObj (Some [0]) []) (VStr ''hello''),
        Tag ''p'' (VObj (Some [0]) []) (VStr ''world'')]"

definition twoLitApp :: "int world" where
  "twoLitApp = snd (rsf idSelector ''#a'' twoLiterals [] page)"

section \<open>How building changes the world\<close>

lemma withChildren_childrenOf [simp]: "withChildren (childrenOf ns p) (ns ! p) = ns ! p"
  by (simp add: withChildren_def childrenOf_def split: node.splits)

lemma grown_refl [simp]: "grown cur ns ns"
  by (simp add: grown_def)

lemma grown_above:
  assumes "grown c ns ns1" "length ns1 \<le> length ns2" "\<And>n. n < length ns \<Longrightarrow> ns2 ! n = ns1 ! n"
  shows "grown c ns ns2"
  using assms unfolding grown_def childrenOf_def by auto

lemma grown_same:
  assumes g1: "grown c ns ns1" and g2: "grown c ns1 ns2"
  shows "grown c ns ns2"
  unfolding grown_def
proof (intro conjI allI impI)
  show "length ns \<le> length ns2" using g1 g2 unfolding grown_def by linarith
next
  fix n assume "n < length ns" "Some n \<noteq> c"
  then show "ns2 ! n = ns ! n" using g1 g2 unfolding grown_def by force
next
  fix p assume p: "p < length ns" "c = Some p"
  from g1 p obtain new1 where 1: "ns1 ! p = withChildren (childrenOf ns1 p) (ns ! p)"
    "childrenOf ns1 p = childrenOf ns p @ new1" "\<forall>m\<in>set new1. length ns \<le> m"
    unfolding grown_def by blast
  have p1: "p < length ns1" using g1 p unfolding grown_def by linarith
  from g2 p p1 obtain new2 where 2: "ns2 ! p = withChildren (childrenOf ns2 p) (ns1 ! p)"
    "childrenOf ns2 p = childrenOf ns1 p @ new2" "\<forall>m\<in>set new2. length ns1 \<le> m"
    unfolding grown_def by blast
  show "ns2 ! p = withChildren (childrenOf ns2 p) (ns ! p)"
    using 1(1) 2(1) by (cases "ns ! p") (simp_all add: withChildren_def)
  have "length ns \<le> length ns1" using g1 unfolding grown_def by simp
  then have "\<forall>m\<in>set (new1 @ new2). length ns \<le> m" using 1(3) 2(3) by auto
  then show "\<exists>new. childrenOf ns2 p = childrenOf ns p @ new \<and> (\<forall>m\<in>set new. length ns \<le> m)"
    using 1(2) 2(2) by (intro exI [of _ "new1 @ new2"]) simp
qed

lemma grown_fresh:
  assumes g1: "grown c ns ns1" and g2: "grown c2 ns1 ns2"
    and fresh: "\<And>e. c2 = Some e \<Longrightarrow> length ns \<le> e"
  shows "grown c ns ns2"
proof (rule grown_above [OF g1])
  show "length ns1 \<le> length ns2" using g2 unfolding grown_def by simp
next
  fix n assume n: "n < length ns"
  have "n < length ns1" using g1 n unfolding grown_def by linarith
  moreover have "Some n \<noteq> c2" using fresh n by fastforce
  ultimately show "ns2 ! n = ns1 ! n" using g2 unfolding grown_def by simp
qed

lemma kept_refl [simp]: "kept w w"
  by (simp add: kept_def)

lemma kept_trans: "kept w w1 \<Longrightarrow> kept w1 w2 \<Longrightarrow> kept w w2"
proof -
  assume a: "kept w w1" and b: "kept w1 w2"
  have "stateId (cells w2 c) = stateId (cells w c)"
    if "stateId (cells w c) \<noteq> None" "stateId (cells w c) \<noteq> Some []" for c
  proof -
    have "stateId (cells w1 c) = stateId (cells w c)" using a that by (simp add: kept_def)
    then show ?thesis using b that by (simp add: kept_def)
  qed
  then show ?thesis using a b by (simp add: kept_def)
qed

lemma kept_invocations [simp]: "kept w (w'\<lparr>invocations := f\<rparr>) = kept w w'"
  "kept (w\<lparr>invocations := f\<rparr>) w' = kept w w'"
  by (simp_all add: kept_def)

lemma kept_nodes [simp]: "kept w (w'\<lparr>nodes := ns\<rparr>) = kept w w'"
  "kept (w\<lparr>nodes := ns\<rparr>) w' = kept w w'"
  by (simp_all add: kept_def)

lemma appendChild_Some:
  assumes "appendChild p nd w = Some (e, w')"
  shows "e = length (nodes w)" "p < length (nodes w)"
    "length (nodes w') = Suc (length (nodes w))"
    "nodes w' ! e = nd"
    "childrenOf (nodes w') p = childrenOf (nodes w) p @ [e]"
    "grown (Some p) (nodes w) (nodes w')"
    "kept w w'" "invocations w' = invocations w"
proof -
  from assms obtain el where el: "p < length (nodes w)" "nodes w ! p = Element el"
    and e: "e = length (nodes w)"
    and w': "w' = w\<lparr>nodes := (nodes w)[p := Element (el\<lparr>childNodes := childNodes el @ [e]\<rparr>)] @ [nd]\<rparr>"
    by (auto simp: appendChild_def Let_def split: if_splits node.splits)
  show "e = length (nodes w)" "p < length (nodes w)" by (fact e, fact el)
  show "length (nodes w') = Suc (length (nodes w))" by (simp add: w')
  show "nodes w' ! e = nd" by (simp add: w' e nth_append)
  show c: "childrenOf (nodes w') p = childrenOf (nodes w) p @ [e]"
    using el by (simp add: w' childrenOf_def nth_append)
  show "grown (Some p) (nodes w) (nodes w')"
    unfolding grown_def
  proof (intro conjI allI impI)
    show "length (nodes w) \<le> length (nodes w')" by (simp add: w')
  next
    fix n assume "n < length (nodes w)" "Some n \<noteq> Some p"
    then show "nodes w' ! n = nodes w ! n" by (simp add: w' nth_append)
  next
    fix q assume q: "q < length (nodes w)" "Some p = Some q"
    then show "nodes w' ! q = withChildren (childrenOf (nodes w') q) (nodes w ! q)"
      using el c by (simp add: w' nth_append withChildren_def childrenOf_def)
    show "\<exists>new. childrenOf (nodes w') q = childrenOf (nodes w) q @ new \<and> (\<forall>m\<in>set new. length (nodes w) \<le> m)"
      using q c e by (intro exI [of _ "[e]"]) simp
  qed
  show "kept w w'" by (simp add: w')
  show "invocations w' = invocations w" by (simp add: w')
qed

lemma clearChildren_facts:
  "length (nodes (clearChildren e w)) = length (nodes w)"
  "n \<noteq> e \<Longrightarrow> nodes (clearChildren e w) ! n = nodes w ! n"
  "kept w (clearChildren e w)"
  "invocations (clearChildren e w) = invocations w"
  "cells (clearChildren e w) = cells w"
  by (auto simp: clearChildren_def split: node.splits)

lemma clearChildren_at:
  "e < length (nodes w) \<Longrightarrow> nodes (clearChildren e w) ! e = withChildren [] (nodes w ! e)"
  "e < length (nodes w) \<Longrightarrow> childrenOf (nodes (clearChildren e w)) e = []"
  by (auto simp: clearChildren_def withChildren_def childrenOf_def split: node.splits)

lemma setContent_facts:
  "length (nodes w) \<le> length (nodes (setContent leaf e s w))"
  "n < length (nodes w) \<Longrightarrow> n \<noteq> e \<Longrightarrow> nodes (setContent leaf e s w) ! n = nodes w ! n"
  "kept w (setContent leaf e s w)"
  "invocations (setContent leaf e s w) = invocations w"
proof -
  let ?c = "clearChildren e w"
  show "length (nodes w) \<le> length (nodes (setContent leaf e s w))"
    by (auto simp: setContent_def clearChildren_facts split: option.splits dest!: appendChild_Some(3))
  show "n < length (nodes w) \<Longrightarrow> n \<noteq> e \<Longrightarrow> nodes (setContent leaf e s w) ! n = nodes w ! n"
  proof -
    assume n: "n < length (nodes w)" "n \<noteq> e"
    show ?thesis
    proof (cases "s = [] \<or> appendChild e (leaf s) ?c = None")
      case True
      then show ?thesis using n by (auto simp: setContent_def clearChildren_facts)
    next
      case False
      then obtain x w' where a: "appendChild e (leaf s) ?c = Some (x, w')" by auto
      from appendChild_Some(6) [OF a] n have "nodes w' ! n = nodes ?c ! n"
        unfolding grown_def by (simp add: clearChildren_facts)
      then show ?thesis using False a n by (simp add: setContent_def clearChildren_facts)
    qed
  qed
  show "kept w (setContent leaf e s w)"
    by (auto simp: setContent_def clearChildren_facts split: option.splits
             dest!: appendChild_Some(7) intro: kept_trans [OF clearChildren_facts(3)])
  show "invocations (setContent leaf e s w) = invocations w"
    by (auto simp: setContent_def clearChildren_facts split: option.splits dest!: appendChild_Some(8))
qed

lemma assignIds_facts:
  "nodes (assignIds i ss w) = nodes w"
  "kept w (assignIds i ss w)"
  "stack (invocations (assignIds i ss w) j) = stack (invocations w j)"
proof (induction ss arbitrary: w)
  case Nil
  { case 1 show ?case by simp }
  { case 2 show ?case by simp }
  { case 3 show ?case by simp }
next
  case (Cons s ss)
  { case 1 show ?case by (simp add: Cons.IH(1)) }
  { case 2 show ?case
      by (simp only: assignIds.simps) (rule kept_trans [OF _ Cons.IH(2)], simp add: kept_def) }
  { case 3 show ?case by (simp add: Cons.IH(3)) }
qed


lemma builtI:
  assumes "grown (currentElement h) (nodes w) (nodes w')" "kept w w'"
    and "\<not> isl res \<Longrightarrow> currentElement h' = currentElement h"
    and "\<not> isl res \<Longrightarrow> stack (invocations w' i) = stack (invocations w i)"
    and "\<And>p. \<not> isl res \<Longrightarrow> p < length (nodes w) \<Longrightarrow> currentElement h = Some p \<Longrightarrow>
           length (childrenOf (nodes w') p) = length (childrenOf (nodes w) p) + n"
  shows "built i n (h, w) (res, h', w')"
  using assms by (simp add: built_def)

lemma built_error: "grown (currentElement h) (nodes w) (nodes w') \<Longrightarrow> kept w w'
    \<Longrightarrow> built i n (h, w) (Inl e, h', w')"
  by (simp add: built_def)

lemma registerWatch_facts:
  assumes "registerWatch i ws content el w = (el', w1)"
  shows "nodes w1 = nodes w" "kept w w1" "stack (invocations w1 j) = stack (invocations w j)"
  using assms by (auto simp: registerWatch_def Let_def assignIds_facts)

lemma elem_built:
  assumes k: "\<And>x. built i n x (k x)"
  shows "built i (Suc 0) hw (elem i tag props0 content k hw)"
proof -
  obtain h w where hw: "hw = (h, w)" by (cases hw)
  define props where "props = (if props0 = VUndef then VObj None [] else props0)"
  show ?thesis
  proof (cases "props = VNull")
    case True
    then show ?thesis by (simp add: hw elem_def props_def [symmetric] built_error)
  next
    case notnull: False
    obtain el w1 where reg: "(case watchOf props of
                Some watchArray \<Rightarrow> registerWatch i watchArray content (createElement tag) w
              | None \<Rightarrow> (createElement tag, w)) = (el, w1)" by fastforce
    have w1: "nodes w1 = nodes w" "kept w w1" "stack (invocations w1 i) = stack (invocations w i)"
      using reg by (auto split: option.splits dest: registerWatch_facts)
    show ?thesis
    proof (cases "currentElement h")
      case None
      then show ?thesis using notnull w1
        by (simp add: hw elem_def props_def [symmetric] reg built_error)
    next
      case (Some parent)
      let ?new = "Element (foldl applyProp el (entries props))"
      show ?thesis
      proof (cases "appendChild parent ?new w1")
        case None
        then show ?thesis using notnull w1 Some
          by (simp add: hw elem_def props_def [symmetric] reg built_error)
      next
        case app: (Some ew)
        obtain e w2 where ew: "ew = (e, w2)" by (cases ew)
        note a = appendChild_Some [OF app [unfolded ew]]
        have e: "e = length (nodes w)" and par: "parent < length (nodes w)" using a w1 by simp_all
        have g2: "grown (Some parent) (nodes w) (nodes w2)" using a(6) w1 by simp
        have k2: "kept w w2" using kept_trans [OF w1(2) a(7)] .
        have c2: "childrenOf (nodes w2) parent = childrenOf (nodes w) parent @ [e]"
          using a(5) w1 by simp
        have st2: "stack (invocations w2 i) = stack (invocations w i)" using a(8) w1 by simp
        show ?thesis
        proof (cases "typeOf content = ''function''")
          case fn: True
          let ?h3 = "h\<lparr>currentElement := Some e, parentElement := Some parent\<rparr>"
          let ?w3 = "w2\<lparr>invocations := (invocations w2)(i := (invocations w2 i)
                            \<lparr>stack := stack (invocations w2 i) @ [parent]\<rparr>)\<rparr>"
          obtain res h' w' where kx: "k (?h3, ?w3) = (res, h', w')" by (cases "k (?h3, ?w3)")
          have b: "built i n (?h3, ?w3) (res, h', w')" using k [of "(?h3, ?w3)"] kx by simp
          then have g3: "grown (Some e) (nodes w2) (nodes w')" and k3: "kept w2 w'"
            by (simp_all add: built_def)
          have g: "grown (Some parent) (nodes w) (nodes w')"
            by (rule grown_fresh [OF g2 g3]) (simp add: e)
          have kk: "kept w w'" using kept_trans [OF k2 k3] .
          have same: "nodes w' ! parent = nodes w2 ! parent"
            using g3 par a(3) e w1 unfolding grown_def by simp
          show ?thesis
          proof (cases res)
            case (Inl err)
            then show ?thesis using notnull Some app ew fn kx g kk
              by (simp add: hw elem_def props_def [symmetric] reg built_error)
          next
            case (Inr u)
            from b Inr have st: "stack (invocations w' i) = stack (invocations w i) @ [parent]"
              by (simp add: built_def st2)
            have out: "elem i tag props0 content k hw =
                (Inr e, h'\<lparr>currentElement := Some parent,
                          parentElement := (if stack (invocations w i) = [] then None
                                             else Some (last (stack (invocations w i))))\<rparr>,
                 w'\<lparr>invocations := (invocations w')(i := (invocations w' i)
                      \<lparr>stack := stack (invocations w i)\<rparr>)\<rparr>)"
              using notnull Some app ew fn kx Inr st
              by (simp add: hw elem_def props_def [symmetric] reg Let_def)
            show ?thesis unfolding out unfolding hw
            proof (rule builtI)
              show "grown (currentElement h) (nodes w) (nodes (w'\<lparr>invocations := (invocations w')(i := (invocations w' i)
                      \<lparr>stack := stack (invocations w i)\<rparr>)\<rparr>))" using g Some by simp
              show "kept w (w'\<lparr>invocations := (invocations w')(i := (invocations w' i)
                      \<lparr>stack := stack (invocations w i)\<rparr>)\<rparr>)" using kk by simp
            next
              fix p assume "p < length (nodes w)" "currentElement h = Some p"
              then have "p = parent" using Some by simp
              then show "length (childrenOf (nodes (w'\<lparr>invocations := (invocations w')(i := (invocations w' i)
                      \<lparr>stack := stack (invocations w i)\<rparr>)\<rparr>)) p) = length (childrenOf (nodes w) p) + Suc 0"
                using same c2 by (simp add: childrenOf_def)
            qed (simp_all add: Some)
          qed
        next
          case nofn: False
          let ?w' = "if content \<noteq> VUndef then
               setContent (if htmlFlag props then Markup else TextNode) e (toString content) w2 else w2"
          have out: "elem i tag props0 content k hw = (Inr e, h, ?w')"
            using notnull Some app ew nofn
            by (simp add: hw elem_def props_def [symmetric] reg)
          have len: "length (nodes w2) \<le> length (nodes ?w')" by (simp add: setContent_facts)
          have below: "nodes ?w' ! m = nodes w2 ! m" if "m < length (nodes w)" for m
            using that e a(3) w1 by (simp add: setContent_facts)
          show ?thesis unfolding out unfolding hw
          proof (rule builtI)
            show "grown (currentElement h) (nodes w) (nodes ?w')"
              unfolding Some by (rule grown_above [OF g2 len below])
            show "kept w ?w'" using k2 by (auto intro: kept_trans setContent_facts(3))
            show "stack (invocations ?w' i) = stack (invocations w i)"
              using st2 by (simp add: setContent_facts)
          next
            fix p assume "p < length (nodes w)" "currentElement h = Some p"
            then have "p = parent" using Some by simp
            then show "length (childrenOf (nodes ?w') p) = length (childrenOf (nodes w) p) + Suc 0"
              using below [OF par] c2 by (simp add: childrenOf_def)
          qed simp
        qed
      qed
    qed
  qed
qed

lemma text_node_built: "built i (Suc 0) hw (text_node content hw)"
proof -
  obtain h w where hw: "hw = (h, w)" by (cases hw)
  show ?thesis
  proof (cases "currentElement h")
    case None
    then show ?thesis by (simp add: hw text_node_def built_error)
  next
    case (Some parent)
    show ?thesis
    proof (cases "appendChild parent (TextNode (toString content)) w")
      case None
      then show ?thesis using Some by (simp add: hw text_node_def built_error)
    next
      case app: (Some nw)
      obtain n w' where nw: "nw = (n, w')" by (cases nw)
      note a = appendChild_Some [OF app [unfolded nw]]
      have out: "text_node content hw = (Inr n, h, w')"
        using Some app nw by (simp add: hw text_node_def)
      show ?thesis unfolding out unfolding hw
        by (intro builtI) (use a Some in simp_all)
    qed
  qed
qed

lemma built_seq:
  assumes 1: "built i (Suc 0) hw (Inr r, hw1)" and 2: "built i n hw1 out"
  shows "built i (Suc n) hw out"
proof -
  obtain h w where hw: "hw = (h, w)" by (cases hw)
  obtain h1 w1 where hw1: "hw1 = (h1, w1)" by (cases hw1)
  obtain res h2 w2 where out: "out = (res, h2, w2)" by (cases out)
  from 1 have c1: "currentElement h1 = currentElement h"
    and g1: "grown (currentElement h) (nodes w) (nodes w1)" and k1: "kept w w1"
    and s1: "stack (invocations w1 i) = stack (invocations w i)"
    and n1: "\<And>p. p < length (nodes w) \<Longrightarrow> currentElement h = Some p \<Longrightarrow>
           length (childrenOf (nodes w1) p) = length (childrenOf (nodes w) p) + Suc 0"
    by (simp_all add: built_def hw hw1)
  from 2 have g2: "grown (currentElement h) (nodes w1) (nodes w2)" and k2: "kept w1 w2"
    and r2: "\<not> isl res \<Longrightarrow> currentElement h2 = currentElement h \<and>
         stack (invocations w2 i) = stack (invocations w i) \<and>
         (\<forall>p<length (nodes w1). currentElement h = Some p \<longrightarrow>
            length (childrenOf (nodes w2) p) = length (childrenOf (nodes w1) p) + n)"
    by (simp_all add: built_def hw1 out c1 s1)
  have le: "length (nodes w) \<le> length (nodes w1)" using g1 by (simp add: grown_def)
  show ?thesis unfolding hw out
  proof (rule builtI)
    show "grown (currentElement h) (nodes w) (nodes w2)" by (rule grown_same [OF g1 g2])
    show "kept w w2" by (rule kept_trans [OF k1 k2])
  next
    fix p assume p: "\<not> isl res" "p < length (nodes w)" "currentElement h = Some p"
    then have "length (childrenOf (nodes w2) p) = length (childrenOf (nodes w1) p) + n"
      using r2 le by simp
    then show "length (childrenOf (nodes w2) p) = length (childrenOf (nodes w) p) + Suc n"
      using n1 p by simp
  qed (simp_all add: r2)
qed

lemma exec_built:
  "built i (Suc 0) hw (exec i c hw)"
  "built i (length cs) hw (execs i cs hw)"
proof (induction i c hw and i cs hw rule: exec_execs.induct)
  case (1 i tag props content hw)
  show ?case by (simp only: exec.simps) (rule elem_built, rule 1)
next
  case (2 i tag propsOrContent content hw)
  show ?case
  proof (cases "hasShorthand (invocations (snd hw) i) tag")
    case sh: True
    show ?thesis
    proof (cases "typeOf propsOrContent = ''string'' \<or> typeOf propsOrContent = ''function''")
      case True
      then show ?thesis using sh
        by (simp only: exec.simps if_True) (rule elem_built, rule "2.IH"(1) [OF sh True])
    next
      case False
      then show ?thesis using sh
        by (simp only: exec.simps if_True if_False) (rule elem_built, rule "2.IH"(2) [OF sh False])
    qed
  next
    case False
    obtain h w where hw: "hw = (h, w)" by (cases hw)
    show ?thesis using False
      by (cases "tag = ''text''") (simp_all add: text_node_built, simp add: hw built_error)
  qed
next
  case (3 i content hw)
  show ?case by (simp only: exec.simps) (rule text_node_built)
next
  case (4 i hw)
  show ?case by (simp add: built_def)
next
  case (5 i c cs hw)
  obtain res hw1 where ex: "exec i c hw = (res, hw1)" by (cases "exec i c hw")
  show ?case
  proof (cases res)
    case (Inl e)
    then show ?thesis using "5.IH"(1) ex by (simp add: built_def)
  next
    case (Inr r)
    have "built i (Suc (length cs)) hw (execs i cs hw1)"
      by (rule built_seq [OF "5.IH"(1) [unfolded ex Inr]]) (rule "5.IH"(2) [OF ex [unfolded Inr, symmetric] refl])
    then show ?thesis using ex Inr by simp
  qed
qed

lemma notifyElement_kept: "kept w (snd (notifyElement c e w))"
proof (cases "nodes w ! e")
  case (Element el)
  show ?thesis
  proof (cases "getAttribute ''data-rsf-watching'' el")
    case None
    then show ?thesis using Element by (simp add: notifyElement_def)
  next
    case (Some marker)
    let ?i = "madeBy (cells w c)"
    let ?w1 = "clearChildren e w"
    let ?t = "(rHandle (invocations ?w1 ?i))\<lparr>currentElement := Some e\<rparr>"
    have "kept ?w1 (snd (snd (execs ?i (bodyOf (rsfRender el)) (?t, ?w1))))"
      using exec_built(2) [of ?i "bodyOf (rsfRender el)" "(?t, ?w1)"] by (simp add: built_def)
    then have "kept w (snd (snd (execs ?i (bodyOf (rsfRender el)) (?t, ?w1))))"
      by (rule kept_trans [OF clearChildren_facts(3)])
    then show ?thesis using Element Some
      by (auto simp: notifyElement_def Let_def clearChildren_facts split: prod.splits sum.splits)
  qed
qed (simp_all add: notifyElement_def)

lemma forEach_kept:
  assumes "\<And>x s. kept s (snd (f x s))"
  shows "kept s (snd (forEach f xs s))"
proof (induction xs arbitrary: s)
  case Nil
  show ?case by simp
next
  case (Cons x xs)
  obtain res s1 where fx: "f x s = (res, s1)" by (cases "f x s")
  have k1: "kept s s1" using assms [of s x] fx by simp
  show ?case
  proof (cases res)
    case (Inl e)
    then show ?thesis using fx k1 by simp
  next
    case (Inr u)
    then show ?thesis using fx kept_trans [OF k1 Cons.IH [of s1]] by simp
  qed
qed

lemma notifyElements_kept: "kept w (snd (notifyElements c w))"
  unfolding notifyElements_def by (rule forEach_kept) (rule notifyElement_kept)

lemma applyProp_shell:
  "childNodes (applyProp el kv) = childNodes el"
  "rsfRender (applyProp el kv) = rsfRender el"
  "tagName (applyProp el kv) = tagName el"
  by (cases kv; simp add: applyProp_def Let_def setAttribute_def removeAttribute_def assignStyle_def)+

lemma applyProps_shell:
  "childNodes (foldl applyProp el es) = childNodes el"
  "rsfRender (foldl applyProp el es) = rsfRender el"
  "tagName (foldl applyProp el es) = tagName el"
  by (induction es arbitrary: el) (simp_all add: applyProp_shell)

lemma registered_shell:
  assumes "(case wt of
              Some watchArray \<Rightarrow> registerWatch i watchArray content (createElement tag) w
            | None \<Rightarrow> (createElement tag, w)) = (el, w1)"
  shows "childNodes el = []" "tagName el = tag"
    "rsfRender el = (if wt = None then VUndef else content)"
  using assms
  by (auto simp: registerWatch_def Let_def createElement_def setAttribute_def split: option.splits)

lemma setContent_fresh:
  assumes "e < length (nodes w)" "nodes w ! e = Element el" "s \<noteq> []"
  shows "childrenOf (nodes (setContent leaf e s w)) e = [length (nodes w)]"
    "nodes (setContent leaf e s w) ! length (nodes w) = leaf s"
    "nodes (setContent leaf e s w) ! e = Element (el\<lparr>childNodes := [length (nodes w)]\<rparr>)"
  using assms
  by (simp_all add: setContent_def clearChildren_def appendChild_def Let_def childrenOf_def nth_append)

lemma setContent_empty:
  assumes "e < length (nodes w)"
  shows "childrenOf (nodes (setContent leaf e [] w)) e = []"
    "nodes (setContent leaf e [] w) ! e = withChildren [] (nodes w ! e)"
  using assms by (simp_all add: setContent_def clearChildren_at)

lemma elem_returns:
  assumes k: "\<And>x. built i n x (k x)"
    and r: "elem i tag props0 content k (h, w) = (Inr e, h', w')"
  shows "\<exists>parent el w1.
      currentElement h = Some parent \<and> parent < length (nodes w) \<and> e = length (nodes w)
    \<and> (case watchOf (if props0 = VUndef then VObj None [] else props0) of
          Some watchArray \<Rightarrow> registerWatch i watchArray content (createElement tag) w
        | None \<Rightarrow> (createElement tag, w)) = (el, w1)
    \<and> nodes w' ! e = withChildren (childrenOf (nodes w') e)
          (Element (foldl applyProp el (entries (if props0 = VUndef then VObj None [] else props0))))
    \<and> length (nodes w) < length (nodes w')
    \<and> childrenOf (nodes w') parent = childrenOf (nodes w) parent @ [e]
    \<and> (typeOf content = ''function'' \<longrightarrow> length (childrenOf (nodes w') e) = n)
    \<and> (typeOf content \<noteq> ''function'' \<longrightarrow>
          (if content = VUndef \<or> toString content = [] then childrenOf (nodes w') e = []
           else childrenOf (nodes w') e = [Suc e]
              \<and> nodes w' ! Suc e
                  = (if htmlFlag (if props0 = VUndef then VObj None [] else props0)
                     then Markup else TextNode) (toString content)))"
proof -
  define props where "props = (if props0 = VUndef then VObj None [] else props0)"
  obtain el w1 where reg: "(case watchOf props of
                Some watchArray \<Rightarrow> registerWatch i watchArray content (createElement tag) w
              | None \<Rightarrow> (createElement tag, w)) = (el, w1)" by fastforce
  have w1: "nodes w1 = nodes w"
    using reg by (auto split: option.splits dest: registerWatch_facts)
  let ?el = "foldl applyProp el (entries props)"
  have el0: "childNodes ?el = []" using registered_shell(1) [OF reg] by (simp add: applyProps_shell)
  from r obtain parent w2 where cur: "currentElement h = Some parent"
    and app: "appendChild parent (Element ?el) w1 = Some (e, w2)"
    by (auto simp: elem_def props_def [symmetric] reg Let_def
             split: if_splits option.splits prod.splits sum.splits)
  have notnull: "props \<noteq> VNull" using r by (auto simp: elem_def props_def [symmetric])
  have unf: "elem i tag props0 content k (h, w) =
     (if typeOf content = ''function'' then
              (case k (h\<lparr>currentElement := Some e, parentElement := Some parent\<rparr>,
                       w2\<lparr>invocations := (invocations w2)(i := (invocations w2 i)
                            \<lparr>stack := stack (invocations w2 i) @ [parent]\<rparr>)\<rparr>) of
                 (Inl err, hw') \<Rightarrow> (Inl err, hw')
               | (Inr _, h', w') \<Rightarrow>
                   let st = stack (invocations w' i);
                       st' = butlast st
                   in (Inr e,
                       h'\<lparr>currentElement := (if st = [] then None else Some (last st)),
                          parentElement := (if st' = [] then None else Some (last st'))\<rparr>,
                       w'\<lparr>invocations := (invocations w')(i := (invocations w' i)\<lparr>stack := st'\<rparr>)\<rparr>))
            else if content \<noteq> VUndef then
              (Inr e, h,
               setContent (if htmlFlag props then Markup else TextNode) e (toString content) w2)
            else (Inr e, h, w2))"
    using notnull cur app by (simp add: elem_def props_def [symmetric] reg)
  note r' = r [unfolded unf]
  note a = appendChild_Some [OF app]
  have e: "e = length (nodes w)" and par: "parent < length (nodes w)" "parent \<noteq> e"
    using a w1 by simp_all
  have ne: "nodes w2 ! e = Element ?el" by (rule a(4))
  have c2: "childrenOf (nodes w2) parent = childrenOf (nodes w) parent @ [e]" using a(5) w1 by simp
  have ce2: "childrenOf (nodes w2) e = []" using ne el0 by (simp add: childrenOf_def)
  have len2: "length (nodes w2) = Suc e" using a(3) w1 e by simp
  have main: "nodes w' ! e = withChildren (childrenOf (nodes w') e) (Element ?el)
      \<and> length (nodes w) < length (nodes w')
      \<and> childrenOf (nodes w') parent = childrenOf (nodes w) parent @ [e]
      \<and> (typeOf content = ''function'' \<longrightarrow> length (childrenOf (nodes w') e) = n)
      \<and> (typeOf content \<noteq> ''function'' \<longrightarrow>
          (if content = VUndef \<or> toString content = [] then childrenOf (nodes w') e = []
           else childrenOf (nodes w') e = [Suc e]
              \<and> nodes w' ! Suc e = (if htmlFlag props then Markup else TextNode) (toString content)))"
  proof (cases "typeOf content = ''function''")
    case fn: True
    let ?h3 = "h\<lparr>currentElement := Some e, parentElement := Some parent\<rparr>"
    let ?w3 = "w2\<lparr>invocations := (invocations w2)(i := (invocations w2 i)
                      \<lparr>stack := stack (invocations w2 i) @ [parent]\<rparr>)\<rparr>"
    from r' fn obtain u h4 w4 where kx: "k (?h3, ?w3) = (Inr u, h4, w4)"
      and nw: "nodes w' = nodes w4"
      by (auto simp: Let_def split: prod.splits sum.splits)
    have b: "built i n (?h3, ?w3) (Inr u, h4, w4)" using k [of "(?h3, ?w3)"] kx by simp
    then have g: "grown (Some e) (nodes w2) (nodes w4)"
      and cnt: "length (childrenOf (nodes w4) e) = length (childrenOf (nodes w2) e) + n"
      using len2 by (simp_all add: built_def)
    have "length (nodes w2) \<le> length (nodes w4)" using g unfolding grown_def by simp
    then have lt: "length (nodes w) < length (nodes w')" using nw len2 e by simp
    have "nodes w4 ! e = withChildren (childrenOf (nodes w4) e) (nodes w2 ! e)"
      using g len2 unfolding grown_def by simp
    moreover have "nodes w4 ! parent = nodes w2 ! parent"
      using g par len2 e unfolding grown_def by simp
    ultimately show ?thesis using fn nw ne cnt ce2 c2 lt by (simp add: childrenOf_def)
  next
    case nofn: False
    show ?thesis
    proof (cases "content = VUndef")
      case True
      then have "w' = w2" using r' nofn by simp
      then show ?thesis using True nofn ne c2 ce2 el0 len2 e by (simp add: withChildren_def)
    next
      case False
      let ?leaf = "if htmlFlag props then Markup else TextNode"
      have w': "w' = setContent ?leaf e (toString content) w2" using r' nofn False by simp
      have pp: "nodes w' ! parent = nodes w2 ! parent"
        unfolding w' using par len2 e by (simp add: setContent_facts)
      have lt: "length (nodes w) < length (nodes w')"
        unfolding w' using setContent_facts(1) [of w2 ?leaf e "toString content"] len2 e by simp
      show ?thesis
      proof (cases "toString content = []")
        case True
        then show ?thesis using w' nofn False pp c2 ne el0 len2 lt
          by (simp add: setContent_empty withChildren_def childrenOf_def)
      next
        case ne': False
        note sc = setContent_fresh [of e w2 ?el "toString content" ?leaf, OF _ ne ne']
        show ?thesis using w' nofn False pp c2 ne' len2 sc lt
          by (simp add: withChildren_def childrenOf_def)
      qed
    qed
  qed
  show ?thesis
    using cur par(1) e reg main unfolding props_def by blast
qed

lemma kebab_no_upper: "\<forall>c\<in>set k. \<not> isUpper c \<Longrightarrow> camelToKebab k = k"
  by (induction k) (simp_all add: camelToKebab_def)

lemma kebab_upper_dash: "\<exists>c\<in>set k. isUpper c \<Longrightarrow> CHR ''-'' \<in> set (camelToKebab k)"
  by (induction k) (auto simp: camelToKebab_def)

lemma boolean_no_dash: "a \<in> set booleanAttributes \<Longrightarrow> CHR ''-'' \<notin> set a"
  by (auto simp: booleanAttributes_def)

lemma kebab_boolean: "camelToKebab k \<in> set booleanAttributes \<Longrightarrow> camelToKebab k = k"
  using kebab_no_upper kebab_upper_dash boolean_no_dash by blast

lemma boolean_not_special:
  assumes "a \<in> set booleanAttributes"
  shows "a \<notin> set events" "a \<noteq> ''class''" "a \<noteq> ''style''" "a \<noteq> ''data-rsf-watching''"
    "\<forall>c\<in>set a. \<not> isUpper c"
  using assms by (auto simp: booleanAttributes_def events_def isUpper_def)

lemma map_of_updateEntry: "map_of (updateEntry b v xs) a = (if a = b then Some v else map_of xs a)"
  by (induction xs) auto

lemma map_of_removeEntry:
  "map_of (filter (\<lambda>p. fst p \<noteq> b) xs) a = (if a = b then None else map_of xs a)"
  by (induction xs) auto

lemma getAttribute_simps:
  "getAttribute a (setAttribute b v el) = (if a = b then Some v else getAttribute a el)"
  "getAttribute a (removeAttribute b el) = (if a = b then None else getAttribute a el)"
  "getAttribute a (assignStyle s el) = getAttribute a el"
  "getAttribute a (el\<lparr>listeners := l\<rparr>) = getAttribute a el"
  "getAttribute a (el\<lparr>rsfRender := f\<rparr>) = getAttribute a el"
  "getAttribute a (el\<lparr>childNodes := cs\<rparr>) = getAttribute a el"
  "getAttribute a (createElement tag) = None"
  by (simp_all add: getAttribute_def setAttribute_def removeAttribute_def assignStyle_def
        createElement_def map_of_updateEntry map_of_removeEntry)


lemma applyProp_other:
  assumes "key \<in> set booleanAttributes" "fst kv \<noteq> key"
  shows "getAttribute key (applyProp el kv) = getAttribute key el"
proof -
  obtain k v where kv: "kv = (k, v)" by (cases kv)
  have "camelToKebab k \<noteq> key"
    using assms kebab_boolean [of k] by (auto simp: kv)
  then show ?thesis
    using boolean_not_special [OF assms(1)]
    by (simp add: kv applyProp_def Let_def getAttribute_simps)
qed

lemma applyProps_other:
  assumes "key \<in> set booleanAttributes" "key \<notin> fst ` set es"
  shows "getAttribute key (foldl applyProp el es) = getAttribute key el"
  using assms(2)
proof (induction es arbitrary: el)
  case Nil
  show ?case by simp
next
  case (Cons kv es)
  then have "fst kv \<noteq> key" "key \<notin> fst ` set es" by auto
  then show ?case using applyProp_other [OF assms(1), of kv el] Cons.IH by simp
qed

lemma applyProp_boolean:
  assumes "key \<in> set booleanAttributes"
  shows "getAttribute key (applyProp el (key, val)) =
           (if val = VBool True then Some []
            else if val = VBool False then None
            else getAttribute key el)"
  using boolean_not_special [OF assms] assms
  by (simp add: applyProp_def Let_def getAttribute_simps kebab_no_upper)

lemma applyProps_boolean:
  assumes "key \<in> set booleanAttributes" "distinct (map fst es)" "(key, val) \<in> set es"
  shows "getAttribute key (foldl applyProp el es) =
           (if val = VBool True then Some []
            else if val = VBool False then None
            else getAttribute key el)"
  using assms(2,3)
proof (induction es arbitrary: el)
  case Nil
  then show ?case by simp
next
  case (Cons kv es)
  show ?case
  proof (cases "kv = (key, val)")
    case True
    then have "key \<notin> fst ` set es" using Cons.prems(1) by simp
    then show ?thesis
      using applyProps_other [OF assms(1), of es "applyProp el (key, val)"] True
      by (simp add: applyProp_boolean [OF assms(1)])
  next
    case False
    then have in_es: "(key, val) \<in> set es" using Cons.prems(2) by simp
    have "key \<in> fst ` set es" using in_es by force
    then have "fst kv \<noteq> key" using Cons.prems(1) by auto
    then show ?thesis
      using Cons.IH [of "applyProp el kv"] Cons.prems(1) in_es
        applyProp_other [OF assms(1), of kv el]
      by simp
  qed
qed



lemma number_range: "- (2 ^ 53) \<le> sint (n :: 54 word) \<and> sint n < 2 ^ 53"
  using sint_ge [of n] sint_lt [of n] by simp

lemma staticElem_acc:
  assumes k: "\<And>h. k h = (fst (k []), h @ snd (k []))"
  shows "staticElem tag props content k html
           = (fst (staticElem tag props content k []), html @ snd (staticElem tag props content k []))"
proof -
  have k1: "\<And>h. k h = (fst (k []), h @ snd (k []))" by (rule k)
  show ?thesis
    unfolding staticElem_def Let_def
    by (subst (1 2 3) k1) (auto split: sum.splits prod.splits)
qed

lemma staticExec_acc_all:
  fixes d :: string
  shows "\<forall>h. staticExec c h = (fst (staticExec c []), h @ snd (staticExec c []))"
    and "\<forall>h. staticExecs cs h = (fst (staticExecs cs []), h @ snd (staticExecs cs []))"
proof (induction c d and cs d rule: staticExec_staticExecs.induct)
  case (1 tag props content html)
  show ?case
  proof
    fix h
    show "staticExec (Elem tag props content) h =
       (fst (staticExec (Elem tag props content) []), h @ snd (staticExec (Elem tag props content) []))"
      by (simp only: staticExec.simps) (rule staticElem_acc, rule 1 [rule_format])
  qed
next
  case (2 tag propsOrContent content html)
  show ?case
  proof (cases "tag = ''text''")
    case True
    then show ?thesis by (simp add: staticText_def)
  next
    case nt: False
    show ?thesis
    proof (cases "tag \<in> set staticTags")
      case False
      then show ?thesis using nt by simp
    next
      case st: True
      show ?thesis
      proof (cases "typeOf propsOrContent = ''string'' \<or> typeOf propsOrContent = ''function''")
        case True
        show ?thesis
        proof
          fix h
          show "staticExec (Tag tag propsOrContent content) h =
            (fst (staticExec (Tag tag propsOrContent content) []),
             h @ snd (staticExec (Tag tag propsOrContent content) []))"
            using nt st True
            by (simp only: staticExec.simps if_True if_False)
               (rule staticElem_acc, rule "2.IH"(1) [OF nt st True, rule_format])
        qed
      next
        case False
        show ?thesis
        proof
          fix h
          show "staticExec (Tag tag propsOrContent content) h =
            (fst (staticExec (Tag tag propsOrContent content) []),
             h @ snd (staticExec (Tag tag propsOrContent content) []))"
            using nt st False
            by (simp only: staticExec.simps if_True if_False)
               (rule staticElem_acc, rule "2.IH"(2) [OF nt st False, rule_format])
        qed
      qed
    qed
  qed
next
  case (3 content html)
  show ?case by (simp add: staticText_def)
next
  case (4 html)
  show ?case by simp
next
  case (5 c cs html)
  obtain r0 o0 where c0: "staticExec c [] = (r0, o0)" by (cases "staticExec c []")
  have ch: "staticExec c h = (r0, h @ o0)" for h
    using "5.IH"(1) [rule_format, of h] unfolding c0 by simp
  show ?case
  proof (cases r0)
    case (Inl e)
    show ?thesis
    proof
      fix h
      have "staticExecs (c # cs) h = (Inl e, h @ o0)" using ch [of h] Inl by simp
      moreover have "staticExecs (c # cs) [] = (Inl e, o0)" using c0 Inl by simp
      ultimately show "staticExecs (c # cs) h =
        (fst (staticExecs (c # cs) []), h @ snd (staticExecs (c # cs) []))"
        by simp
    qed
  next
    case (Inr u)
    have a: "staticExecs cs h = (fst (staticExecs cs []), h @ snd (staticExecs cs []))" for h
      using "5.IH"(2) [OF ch [of html, unfolded Inr, symmetric] refl, rule_format, of h] .
    show ?thesis
    proof
      fix h
      have "staticExecs (c # cs) h = staticExecs cs (h @ o0)" using ch [of h] Inr by simp
      moreover have "staticExecs (c # cs) [] = staticExecs cs o0" using c0 Inr by simp
      ultimately show "staticExecs (c # cs) h =
        (fst (staticExecs (c # cs) []), h @ snd (staticExecs (c # cs) []))"
        using a [of "h @ o0"] a [of o0] by simp
    qed
  qed
qed

lemma set_replaceAll:
  "x \<in> set (replaceAll c rep s) \<Longrightarrow> (x \<in> set s \<and> x \<noteq> c) \<or> x \<in> set rep"
  by (induction s) (auto simp: replaceAll_def split: if_splits)

lemma escapeHtml_safe:
  "CHR ''<'' \<notin> set (escapeHtml v)" "CHR ''>'' \<notin> set (escapeHtml v)"
  "CHR 0x22 \<notin> set (escapeHtml v)" "CHR 0x27 \<notin> set (escapeHtml v)"
  unfolding escapeHtml_def by (auto dest!: set_replaceAll)

lemma staticAttr_function:
  "typeOf v = ''function'' \<Longrightarrow> k \<noteq> ''style'' \<Longrightarrow> staticAttr (k, v) = Inr []"
  by (auto simp: staticAttr_def Let_def typeOf_def split: jsval.splits)

lemma staticAttrs_function:
  "staticAttrs a es
     = staticAttrs a (filter (\<lambda>(k, v). typeOf v \<noteq> ''function'' \<or> k = ''style'') es)"
proof (induction es arbitrary: a)
  case Nil
  show ?case by simp
next
  case (Cons kv es)
  obtain k v where kv: "kv = (k, v)" by (cases kv)
  show ?case
  proof (cases "typeOf v \<noteq> ''function'' \<or> k = ''style''")
    case True
    then show ?thesis using Cons.IH by (simp add: kv split: sum.splits)
  next
    case False
    then show ?thesis using Cons.IH [of a] by (simp add: kv staticAttr_function)
  qed
qed

lemma withChildren_twice [simp]: "withChildren a (withChildren b nd) = withChildren a nd"
  by (cases nd) (simp_all add: withChildren_def)

lemma childrenOf_withChildren:
  "ns ! n = withChildren cs nd \<Longrightarrow> (\<exists>el. nd = Element el) \<Longrightarrow> childrenOf ns n = cs"
  by (auto simp: childrenOf_def withChildren_def)

lemma shell_facts:
  assumes "ns' ! n = withChildren cs (ns ! n)"
  shows "attributeOf ns' n a = attributeOf ns n a" "renderOf ns' n = renderOf ns n"
  using assms
  by (cases "ns ! n"; simp add: attributeOf_def renderOf_def withChildren_def getAttribute_def)+

lemma eligible_shell:
  assumes "nodes w1 ! n = withChildren cs (nodes w ! n)"
    and "stateId (cells w1 c) = stateId (cells w c)"
  shows "eligible w1 c n = eligible w c n"
  using assms(2) by (simp add: eligible_def shell_facts [OF assms(1)] split: option.splits)

lemma notifyElement_skip:
  assumes "\<not> eligible w c e"
  shows "snd (notifyElement c e w) = w"
    "attributeOf (nodes w) e ''data-rsf-watching'' \<noteq> None \<Longrightarrow> notifyElement c e w = (Inr (), w)"
  using assms
  by (auto simp: eligible_def notifyElement_def attributeOf_def renderOf_def Let_def
           split: node.splits option.splits)

lemma notifyElement_literal:
  assumes "eligible w c e" "typeOf (renderOf (nodes w) e) \<noteq> ''function''"
  shows "notifyElement c e w = (Inl (TypeError ''renderFn is not a function''), clearChildren e w)"
  using assms
  by (auto simp: eligible_def notifyElement_def attributeOf_def renderOf_def Let_def
           split: node.splits option.splits)

lemma notifyElement_function:
  assumes el: "eligible w c e" and fn: "typeOf (renderOf (nodes w) e) = ''function''"
  shows "\<exists>h. notifyElement c e w =
     (case execs (madeBy (cells w c)) (bodyOf (renderOf (nodes w) e))
             (h\<lparr>currentElement := Some e\<rparr>, clearChildren e w) of
        (Inl err, _, w2) \<Rightarrow> (Inl err, w2)
      | (Inr _, _, w2) \<Rightarrow> (Inr (), w2))"
  using assms
  by (auto simp: eligible_def notifyElement_def attributeOf_def renderOf_def Let_def
        clearChildren_facts split: node.splits option.splits)

lemma notifyElement_step:
  assumes e: "e < length (nodes w)" and r: "notifyElement c e w = (res, w1)"
  shows "length (nodes w) \<le> length (nodes w1)"
    and "\<And>n. n < length (nodes w) \<Longrightarrow> n \<noteq> e \<Longrightarrow> nodes w1 ! n = nodes w ! n"
    and "nodes w1 ! e = withChildren (childrenOf (nodes w1) e) (nodes w ! e)"
    and "eligible w c e \<Longrightarrow> \<forall>m \<in> set (childrenOf (nodes w1) e). length (nodes w) \<le> m"
    and "eligible w c e \<Longrightarrow> res = Inr () \<Longrightarrow>
           length (childrenOf (nodes w1) e) = length (bodyOf (renderOf (nodes w) e))"
proof -
  have all: "length (nodes w) \<le> length (nodes w1)
    \<and> (\<forall>n. n < length (nodes w) \<longrightarrow> n \<noteq> e \<longrightarrow> nodes w1 ! n = nodes w ! n)
    \<and> nodes w1 ! e = withChildren (childrenOf (nodes w1) e) (nodes w ! e)
    \<and> (eligible w c e \<longrightarrow> (\<forall>m \<in> set (childrenOf (nodes w1) e). length (nodes w) \<le> m))
    \<and> (eligible w c e \<longrightarrow> res = Inr () \<longrightarrow>
           length (childrenOf (nodes w1) e) = length (bodyOf (renderOf (nodes w) e)))"
  proof (cases "eligible w c e")
    case False
    then have "w1 = w" using notifyElement_skip(1) [of w c e] r by simp
    then show ?thesis using False by simp
  next
    case el: True
    let ?wc = "clearChildren e w"
    have elem_e: "\<exists>x. nodes w ! e = Element x"
      using el by (auto simp: eligible_def attributeOf_def split: node.splits option.splits)
    show ?thesis
    proof (cases "typeOf (renderOf (nodes w) e) = ''function''")
      case False
      then have "w1 = ?wc" "res \<noteq> Inr ()" using notifyElement_literal [OF el False] r by simp_all
      then show ?thesis using e by (simp add: clearChildren_facts clearChildren_at)
    next
      case fn: True
      let ?i = "madeBy (cells w c)"
      let ?body = "bodyOf (renderOf (nodes w) e)"
      from notifyElement_function [OF el fn] obtain h where
        ne: "notifyElement c e w =
          (case execs ?i ?body (h\<lparr>currentElement := Some e\<rparr>, ?wc) of
             (Inl err, _, w2) \<Rightarrow> (Inl err, w2) | (Inr _, _, w2) \<Rightarrow> (Inr (), w2))" by blast
      obtain r2 h2 w2 where ex: "execs ?i ?body (h\<lparr>currentElement := Some e\<rparr>, ?wc) = (r2, h2, w2)"
        by (cases "execs ?i ?body (h\<lparr>currentElement := Some e\<rparr>, ?wc)")
      have w12: "w1 = w2" and res: "res = Inr () \<longrightarrow> \<not> isl r2"
        using ne ex r by (auto split: sum.splits)
      have b: "built ?i (length ?body) (h\<lparr>currentElement := Some e\<rparr>, ?wc) (r2, h2, w2)"
        using exec_built(2) [where i = ?i and cs = ?body and hw = "(h\<lparr>currentElement := Some e\<rparr>, ?wc)"] ex
        by simp
      then have g: "grown (Some e) (nodes ?wc) (nodes w2)"
        and cnt: "\<not> isl r2 \<longrightarrow> length (childrenOf (nodes w2) e) = length (childrenOf (nodes ?wc) e) + length ?body"
        using e by (simp_all add: built_def clearChildren_facts)
      from g e obtain new where sh: "nodes w2 ! e = withChildren (childrenOf (nodes w2) e) (nodes ?wc ! e)"
        and new: "childrenOf (nodes w2) e = childrenOf (nodes ?wc) e @ new"
          "\<forall>m\<in>set new. length (nodes ?wc) \<le> m"
        unfolding grown_def by (auto simp: clearChildren_facts)
      have "length (nodes w) \<le> length (nodes w2)" using g by (simp add: grown_def clearChildren_facts)
      moreover have "\<forall>n. n < length (nodes w) \<longrightarrow> n \<noteq> e \<longrightarrow> nodes w2 ! n = nodes w ! n"
        using g unfolding grown_def by (auto simp: clearChildren_facts)
      moreover have "nodes w2 ! e = withChildren (childrenOf (nodes w2) e) (nodes w ! e)"
        using sh e by (simp add: clearChildren_at)
      moreover have "\<forall>m \<in> set (childrenOf (nodes w2) e). length (nodes w) \<le> m"
        using new e by (simp add: clearChildren_at clearChildren_facts)
      moreover have "res = Inr () \<longrightarrow> length (childrenOf (nodes w2) e) = length ?body"
        using cnt res e by (simp add: clearChildren_at)
      ultimately show ?thesis unfolding w12 by blast
    qed
  qed
  show "length (nodes w) \<le> length (nodes w1)"
    and "\<And>n. n < length (nodes w) \<Longrightarrow> n \<noteq> e \<Longrightarrow> nodes w1 ! n = nodes w ! n"
    and "nodes w1 ! e = withChildren (childrenOf (nodes w1) e) (nodes w ! e)"
    and "eligible w c e \<Longrightarrow> \<forall>m \<in> set (childrenOf (nodes w1) e). length (nodes w) \<le> m"
    and "eligible w c e \<Longrightarrow> res = Inr () \<Longrightarrow>
           length (childrenOf (nodes w1) e) = length (bodyOf (renderOf (nodes w) e))"
    using all by blast+
qed

lemma notifyElement_stateId:
  assumes "stateId (cells w c) \<noteq> Some []"
  shows "stateId (cells (snd (notifyElement c e w)) c) = stateId (cells w c)"
proof (cases "stateId (cells w c)")
  case None
  then have "\<not> eligible w c e"
    by (simp add: eligible_def arrayIncludes_def split: option.splits)
  then show ?thesis using notifyElement_skip(1) [of w c e] by simp
next
  case (Some x)
  then show ?thesis using assms notifyElement_kept [of w c e] by (simp add: kept_def)
qed

lemma querySelectorAll_bound: "n \<in> set (querySelectorAll w) \<Longrightarrow> n < length (nodes w)"
proof -
  have "m \<in> set (descendants fuel ns r) \<Longrightarrow> m < length ns" for m fuel ns r
  proof (induction fuel arbitrary: r)
    case 0
    then show ?case by simp
  next
    case (Suc fuel)
    show ?case
    proof (cases "r < length ns")
      case False
      then show ?thesis using Suc.prems by simp
    next
      case True
      show ?thesis
      proof (cases "ns ! r")
        case (Element el)
        then have "m = r \<or> (\<exists>c\<in>set (childNodes el). m \<in> set (descendants fuel ns c))"
          using Suc.prems True by auto
        then show ?thesis using Suc.IH True by blast
      qed (use Suc.prems True in simp_all)
    qed
  qed
  then show "n \<in> set (querySelectorAll w) \<Longrightarrow> n < length (nodes w)"
    by (auto simp: querySelectorAll_def)
qed

lemma querySelectorAll_marked:
  "n \<in> set (querySelectorAll w) \<Longrightarrow> attributeOf (nodes w) n ''data-rsf-watching'' \<noteq> None"
  by (auto simp: querySelectorAll_def hasAttribute_def attributeOf_def split: node.splits)

lemma notify_pass:
  assumes "forEach (notifyElement c) L w = (res, w')"
    and "set L \<subseteq> {..<length (nodes w)}"
    and "stateId (cells w c) \<noteq> Some []"
  shows "length (nodes w) \<le> length (nodes w')
    \<and> stateId (cells w' c) = stateId (cells w c)
    \<and> (\<forall>n<length (nodes w). nodes w' ! n = withChildren (childrenOf (nodes w') n) (nodes w ! n))
    \<and> (\<forall>n<length (nodes w). \<not> (n \<in> set L \<and> eligible w c n) \<longrightarrow> nodes w' ! n = nodes w ! n)
    \<and> (res = Inr () \<longrightarrow> (\<forall>n\<in>set L. eligible w c n \<longrightarrow>
          (\<forall>m\<in>set (childrenOf (nodes w') n). length (nodes w) \<le> m)
          \<and> length (childrenOf (nodes w') n) = length (bodyOf (renderOf (nodes w) n))))"
  using assms
proof (induction L arbitrary: w res w')
  case Nil
  then show ?case by simp
next
  case (Cons e L)
  obtain r1 w1 where step: "notifyElement c e w = (r1, w1)" by (cases "notifyElement c e w")
  have e: "e < length (nodes w)" using Cons.prems(2) by simp
  note s = notifyElement_step [OF e step]
  have sid1: "stateId (cells w1 c) = stateId (cells w c)"
    using notifyElement_stateId [OF Cons.prems(3), of e] step by simp
  have shell1: "nodes w1 ! n = withChildren (childrenOf (nodes w1) n) (nodes w ! n)"
    if "n < length (nodes w)" for n
  proof (cases "n = e")
    case True
    then show ?thesis using s(3) by simp
  next
    case False
    then have eq: "nodes w1 ! n = nodes w ! n" using s(2) [OF that] by simp
    then have "childrenOf (nodes w1) n = childrenOf (nodes w) n" by (simp add: childrenOf_def)
    then show ?thesis using eq by simp
  qed
  have el1: "eligible w1 c n = eligible w c n" if "n < length (nodes w)" for n
    using eligible_shell [OF shell1 [OF that] sid1] .
  have ro1: "renderOf (nodes w1) n = renderOf (nodes w) n" if "n < length (nodes w)" for n
    using shell_facts(2) [OF shell1 [OF that]] .
  show ?case
  proof (cases r1)
    case (Inl err)
    then have out: "res = Inl err" "w' = w1" using Cons.prems(1) step by simp_all
    have "\<forall>n<length (nodes w). \<not> (n \<in> set (e # L) \<and> eligible w c n) \<longrightarrow> nodes w1 ! n = nodes w ! n"
    proof (intro allI impI)
      fix n assume n: "n < length (nodes w)" "\<not> (n \<in> set (e # L) \<and> eligible w c n)"
      show "nodes w1 ! n = nodes w ! n"
      proof (cases "n = e")
        case True
        then have "\<not> eligible w c e" using n by simp
        then show ?thesis using notifyElement_skip(1) [of w c e] step True by simp
      next
        case False
        then show ?thesis using s(2) n by simp
      qed
    qed
    then show ?thesis using out s(1) sid1 shell1 by simp
  next
    case (Inr u)
    then have rest: "forEach (notifyElement c) L w1 = (res, w')" using Cons.prems(1) step by simp
    have sub: "set L \<subseteq> {..<length (nodes w1)}" using Cons.prems(2) s(1) by auto
    have sid: "stateId (cells w1 c) \<noteq> Some []" using sid1 Cons.prems(3) by simp
    note ih = Cons.IH [OF rest sub sid]
    have len: "length (nodes w) \<le> length (nodes w')" using ih s(1) by linarith
    have sid': "stateId (cells w' c) = stateId (cells w c)" using ih sid1 by simp
    have shell: "nodes w' ! n = withChildren (childrenOf (nodes w') n) (nodes w ! n)"
      if "n < length (nodes w)" for n
    proof -
      have "n < length (nodes w1)" using that s(1) by linarith
      then have "nodes w' ! n = withChildren (childrenOf (nodes w') n) (nodes w1 ! n)" using ih by blast
      then show ?thesis using shell1 [OF that] by simp
    qed
    have same: "nodes w' ! n = nodes w ! n"
      if n: "n < length (nodes w)" "\<not> (n \<in> set (e # L) \<and> eligible w c n)" for n
    proof -
      have n1: "n < length (nodes w1)" using n s(1) by linarith
      have "\<not> (n \<in> set L \<and> eligible w1 c n)" using n el1 [OF n(1)] by auto
      then have a: "nodes w' ! n = nodes w1 ! n" using ih n1 by blast
      have "nodes w1 ! n = nodes w ! n"
      proof (cases "n = e")
        case True
        then have "\<not> eligible w c e" using n by simp
        then show ?thesis using notifyElement_skip(1) [of w c e] step True by simp
      next
        case False
        then show ?thesis using s(2) n by simp
      qed
      then show ?thesis using a by simp
    qed
    have rebuilt: "(\<forall>m\<in>set (childrenOf (nodes w') n). length (nodes w) \<le> m)
          \<and> length (childrenOf (nodes w') n) = length (bodyOf (renderOf (nodes w) n))"
      if ok: "res = Inr ()" and n: "n \<in> set (e # L)" "eligible w c n" for n
    proof -
      have nl: "n < length (nodes w)" using n(1) Cons.prems(2) by auto
      have n1: "n < length (nodes w1)" using nl s(1) by linarith
      show ?thesis
      proof (cases "n \<in> set L")
        case True
        then have "(\<forall>m\<in>set (childrenOf (nodes w') n). length (nodes w1) \<le> m)
          \<and> length (childrenOf (nodes w') n) = length (bodyOf (renderOf (nodes w1) n))"
          using ih ok el1 [OF nl] n(2) by blast
        then show ?thesis using s(1) ro1 [OF nl] by auto
      next
        case False
        then have ne: "n = e" using n(1) by simp
        have "\<not> (n \<in> set L \<and> eligible w1 c n)" using False by simp
        then have "nodes w' ! n = nodes w1 ! n" using ih n1 by blast
        then have "childrenOf (nodes w') n = childrenOf (nodes w1) n" by (simp add: childrenOf_def)
        then show ?thesis using s(4) s(5) n(2) Inr ne by simp
      qed
    qed
    show ?thesis using len sid' shell same rebuilt by blast
  qed
qed

lemma value_update_facts:
  "querySelectorAll (w\<lparr>cells := (cells w)(c := (cells w c)\<lparr>cvalue := v\<rparr>)\<rparr>) = querySelectorAll w"
  "eligible (w\<lparr>cells := (cells w)(c := (cells w c)\<lparr>cvalue := v\<rparr>)\<rparr>) c' n = eligible w c' n"
  "nodes (w\<lparr>cells := (cells w)(c := (cells w c)\<lparr>cvalue := v\<rparr>)\<rparr>) = nodes w"
  "stateId (cells (w\<lparr>cells := (cells w)(c := (cells w c)\<lparr>cvalue := v\<rparr>)\<rparr>) c') = stateId (cells w c')"
  by (simp_all add: querySelectorAll_def eligible_def split: option.splits)

lemma forEach_append:
  "forEach f (pre @ rest) s =
     (case forEach f pre s of
        (Inl e, s') \<Rightarrow> (Inl e, s')
      | (Inr _, s') \<Rightarrow> forEach f rest s')"
  by (induction pre arbitrary: s) (auto split: prod.splits sum.splits)

lemma split_at_first:
  assumes "e \<in> set L"
  shows "\<exists>rest. L = takeWhile (\<lambda>x. x \<noteq> e) L @ e # rest"
proof -
  have "dropWhile (\<lambda>x. x \<noteq> e) L \<noteq> []" using assms by (simp add: dropWhile_eq_Nil_conv)
  moreover have "hd (dropWhile (\<lambda>x. x \<noteq> e) L) = e"
    using assms hd_dropWhile [of "\<lambda>x. x \<noteq> e" L] calculation by blast
  ultimately obtain rest where "dropWhile (\<lambda>x. x \<noteq> e) L = e # rest"
    by (cases "dropWhile (\<lambda>x. x \<noteq> e) L") auto
  then show ?thesis using takeWhile_dropWhile_id [of "\<lambda>x. x \<noteq> e" L] by metis
qed

lemma notify_literal_reached:
  assumes scan: "e \<in> set (querySelectorAll w)"
    and el: "eligible w c e"
    and lit: "typeOf (renderOf (nodes w) e) \<noteq> ''function''"
    and sid: "stateId (cells w c) \<noteq> Some []"
  shows "forEach (notifyElement c) (takeWhile (\<lambda>x. x \<noteq> e) (querySelectorAll w)) w = (Inr (), wm)
           \<Longrightarrow> notifyElements c w
                 = (Inl (TypeError ''renderFn is not a function''), clearChildren e wm)
               \<and> e < length (nodes wm)"
    and "forEach (notifyElement c) (takeWhile (\<lambda>x. x \<noteq> e) (querySelectorAll w)) w = (Inl err, wm)
           \<Longrightarrow> notifyElements c w = (Inl err, wm)"
    and "fst (notifyElements c w) \<noteq> Inr ()"
proof -
  let ?L = "querySelectorAll w"
  let ?pre = "takeWhile (\<lambda>x. x \<noteq> e) ?L"
  from split_at_first [OF scan] obtain rest where L: "?L = ?pre @ e # rest" by blast
  have ne: "notifyElements c w = forEach (notifyElement c) (?pre @ e # rest) w"
    unfolding notifyElements_def using L by simp
  have e: "e < length (nodes w)" using scan by (rule querySelectorAll_bound)
  have sub: "set ?pre \<subseteq> {..<length (nodes w)}"
    using set_takeWhileD [of _ "\<lambda>x. x \<noteq> e" ?L] querySelectorAll_bound [of _ w] by auto
  have reached: "notifyElements c w
                 = (Inl (TypeError ''renderFn is not a function''), clearChildren e wm)
               \<and> e < length (nodes wm)"
    if pre: "forEach (notifyElement c) ?pre w = (Inr (), wm)" for wm
  proof -
    note p = notify_pass [OF pre sub sid]
    have shell: "nodes wm ! e = withChildren (childrenOf (nodes wm) e) (nodes w ! e)"
      using p e by blast
    have sid': "stateId (cells wm c) = stateId (cells w c)" using p by blast
    have el': "eligible wm c e" using eligible_shell [OF shell sid'] el by simp
    have lit': "typeOf (renderOf (nodes wm) e) \<noteq> ''function''"
      using shell_facts(2) [OF shell] lit by simp
    have "forEach (notifyElement c) (?pre @ e # rest) w = forEach (notifyElement c) (e # rest) wm"
      by (simp add: forEach_append pre)
    also have "\<dots> = (Inl (TypeError ''renderFn is not a function''), clearChildren e wm)"
      using notifyElement_literal [OF el' lit'] by simp
    finally show ?thesis using ne p e by simp
  qed
  then show "forEach (notifyElement c) ?pre w = (Inr (), wm)
           \<Longrightarrow> notifyElements c w
                 = (Inl (TypeError ''renderFn is not a function''), clearChildren e wm)
               \<and> e < length (nodes wm)" .
  have thrown: "notifyElements c w = (Inl err, wm)"
    if pre: "forEach (notifyElement c) ?pre w = (Inl err, wm)" for err wm
    using ne by (simp add: forEach_append pre)
  then show "forEach (notifyElement c) ?pre w = (Inl err, wm)
           \<Longrightarrow> notifyElements c w = (Inl err, wm)" .
  show "fst (notifyElements c w) \<noteq> Inr ()"
  proof (cases "forEach (notifyElement c) ?pre w")
    case (Pair r wm)
    show ?thesis
    proof (cases r)
      case (Inl err)
      then show ?thesis using thrown Pair by simp
    next
      case (Inr u)
      then show ?thesis using reached [of wm] Pair by simp
    qed
  qed
qed

lemma State_set_unchanged:
  assumes sid: "stateId (cells w c) \<noteq> Some []"
    and n: "n < length (nodes w)" "\<not> (n \<in> set (querySelectorAll w) \<and> eligible w c n)"
  shows "nodes (snd (State_set c newValue force w)) ! n = nodes w ! n"
proof (cases "force \<or> \<not> compare (cells w c) (cvalue (cells w c)) newValue")
  case False
  then show ?thesis by (simp add: State_set_def)
next
  case True
  let ?w1 = "w\<lparr>cells := (cells w)(c := (cells w c)\<lparr>cvalue := newValue\<rparr>)\<rparr>"
  obtain res w' where run: "State_set c newValue force w = (res, w')"
    by (cases "State_set c newValue force w")
  have fe: "forEach (notifyElement c) (querySelectorAll w) ?w1 = (res, w')"
    using True run by (auto simp: State_set_def notifyElements_def value_update_facts)
  have sub: "set (querySelectorAll w) \<subseteq> {..<length (nodes ?w1)}"
    using querySelectorAll_bound [of _ w] by auto
  have sid1: "stateId (cells ?w1 c) \<noteq> Some []" using sid by simp
  note p = notify_pass [OF fe sub sid1, unfolded value_update_facts]
  have "nodes w' ! n = nodes w ! n" using p n by blast
  then show ?thesis using run by simp
qed

section \<open>The anchor that does not resolve\<close>

text \<open>
  C4.  When the anchor selector of an \<open>rsf\<close> call resolves to no element, \<open>render\<close> raises
  the anchor error at once: the outcome is that error whatever the builder function is, and
  the world differs from the one before the call only by the closure the call created.  The
  node store (hence the document) and the States are exactly as they were; nothing was
  built or cleared.
\<close>

theorem render_anchor_not_found:
  assumes "querySelector anchorSel (nodes w) (documentElement w) = None"
  shows "rsf querySelector anchorSel childFn optAddTags w =
           (Inl (AnchorNotFound anchorSel),
            w\<lparr>invocations := (invocations w)(nextInvocation w :=
                 \<lparr>anchor = anchorSel, child = childFn, addTags = optAddTags, rootElement = None,
                  rHandle = \<lparr>currentElement = None, parentElement = None\<rparr>,
                  stack = [], stateIdCounter = 0\<rparr>),
               nextInvocation := Suc (nextInvocation w)\<rparr>)
       \<and> nodes (snd (rsf querySelector anchorSel childFn optAddTags w)) = nodes w
       \<and> cells (snd (rsf querySelector anchorSel childFn optAddTags w)) = cells w"
  using assms by (simp add: rsf_def render_def init_def Let_def)

theorem render_anchor_not_found_witness:
  "idSelector ''#missing'' (nodes page) (documentElement page) = None
   \<and> fst (rsf idSelector ''#missing'' (VFun ''r => r.div()'' [Tag ''div'' VUndef VUndef]) [] page)
       = Inl (AnchorNotFound ''#missing'')
   \<and> nodes (snd (rsf idSelector ''#missing'' (VFun ''r => r.div()'' [Tag ''div'' VUndef VUndef]) [] page))
       = nodes page"
proof -
  have h: "idSelector ''#missing'' (nodes page) (documentElement page) = None"
    by code_simp
  show ?thesis
    using render_anchor_not_found [where querySelector = idSelector and anchorSel = "''#missing''"
        and w = page and childFn = "VFun ''r => r.div()'' [Tag ''div'' VUndef VUndef]"
        and optAddTags = "[]", OF h] h
    by simp
qed

section \<open>State.set\<close>

text \<open>
  C1.  A call \<open>set(newValue, force)\<close> on any State.  If \<open>force\<close> holds or the comparator
  reports a change, the call is the notification run on the world in which the value has
  been replaced (the notification happens inside the call); the State holds \<open>newValue\<close>
  when the call ends, however the notification ends; and when the call returns normally,
  every element of the document scan whose marker lists the identity of the State and whose
  stored procedure is truthy has been rebuilt: all its children were created during the
  call, one for each builder call its procedure makes at its top level (the identity is
  taken not to be the empty string, which is never assigned).  Otherwise the call returns
  normally and the world is unchanged: the value stays and no watcher was rebuilt.  With
  \<open>force\<close> the first case applies whatever the comparator says.
\<close>

theorem State_set_gate:
  "(force \<or> \<not> compare (cells w c) (cvalue (cells w c)) newValue \<longrightarrow>
      State_set c newValue force w
        = notifyElements c (w\<lparr>cells := (cells w)(c := (cells w c)\<lparr>cvalue := newValue\<rparr>)\<rparr>)
      \<and> cvalue (cells (snd (State_set c newValue force w)) c) = newValue
      \<and> (stateId (cells w c) \<noteq> Some [] \<and> fst (State_set c newValue force w) = Inr () \<longrightarrow>
           (\<forall>n\<in>set (querySelectorAll w). eligible w c n \<longrightarrow>
              rebuiltFrom (nodes w) (nodes (snd (State_set c newValue force w))) n)))
   \<and> (\<not> force \<and> compare (cells w c) (cvalue (cells w c)) newValue \<longrightarrow>
      State_set c newValue force w = (Inr (), w))"
proof -
  let ?w1 = "w\<lparr>cells := (cells w)(c := (cells w c)\<lparr>cvalue := newValue\<rparr>)\<rparr>"
  let ?out = "State_set c newValue force w"
  have val: "cvalue (cells (snd (notifyElements c ?w1)) c) = newValue"
    using notifyElements_kept [of ?w1 c] by (simp add: kept_def)
  have rebuilt: "rebuiltFrom (nodes w) (nodes (snd ?out)) n"
    if gate: "force \<or> \<not> compare (cells w c) (cvalue (cells w c)) newValue"
      and sid: "stateId (cells w c) \<noteq> Some []" and ok: "fst ?out = Inr ()"
      and n: "n \<in> set (querySelectorAll w)" "eligible w c n" for n
  proof -
    have fe: "forEach (notifyElement c) (querySelectorAll w) ?w1 = (Inr (), snd ?out)"
      using gate ok [symmetric]
      by (auto simp: State_set_def notifyElements_def value_update_facts)
    have sub: "set (querySelectorAll w) \<subseteq> {..<length (nodes ?w1)}"
      using querySelectorAll_bound [of _ w] by auto
    have sid1: "stateId (cells ?w1 c) \<noteq> Some []" using sid by simp
    note p = notify_pass [OF fe sub sid1, unfolded value_update_facts]
    have "n < length (nodes w)" using n(1) by (rule querySelectorAll_bound)
    then have "nodes (snd ?out) ! n = withChildren (childrenOf (nodes (snd ?out)) n) (nodes w ! n)"
      using p by blast
    then show ?thesis using p n unfolding rebuiltFrom_def by blast
  qed
  have notify: "?out = notifyElements c ?w1"
    if "force \<or> \<not> compare (cells w c) (cvalue (cells w c)) newValue"
    using that by (auto simp: State_set_def)
  have same: "?out = (Inr (), w)"
    if "\<not> force \<and> compare (cells w c) (cvalue (cells w c)) newValue"
    using that by (simp add: State_set_def)
  show ?thesis using val rebuilt notify same by (intro conjI impI ballI) simp_all
qed

theorem State_set_gate_witness:
  "compare (cells appA 0) (cvalue (cells appA 0)) 0
   \<and> \<not> compare (cells appA 0) (cvalue (cells appA 0)) 7
   \<and> stateId (cells appA 0) \<noteq> Some []
   \<and> 3 \<in> set (querySelectorAll appA) \<and> eligible appA 0 3
   \<and> childrenOf (nodes appA) 3 = [4]
   \<and> fst (State_set 0 0 True appA) = Inr ()
   \<and> cvalue (cells (snd (State_set 0 0 True appA)) 0) = 0
   \<and> rebuiltFrom (nodes appA) (nodes (snd (State_set 0 0 True appA))) 3
   \<and> childrenOf (nodes (snd (State_set 0 0 True appA))) 3 = [5]
   \<and> fst (State_set 0 7 False appA) = Inr ()
   \<and> cvalue (cells (snd (State_set 0 7 False appA)) 0) = 7
   \<and> rebuiltFrom (nodes appA) (nodes (snd (State_set 0 7 False appA))) 3
   \<and> State_set 0 0 False appA = (Inr (), appA)"
proof -
  define forced where "forced = State_set 0 0 True appA"
  define changed where "changed = State_set 0 7 False appA"
  have h: "(let w = appA in
       compare (cells w 0) (cvalue (cells w 0)) 0
     \<and> \<not> compare (cells w 0) (cvalue (cells w 0)) 7
     \<and> stateId (cells w 0) \<noteq> Some []
     \<and> 3 \<in> set (querySelectorAll w) \<and> eligible w 0 3
     \<and> childrenOf (nodes w) 3 = [4])"
    by code_simp
  have eqv: "compare (cells appA 0) (cvalue (cells appA 0)) 0"
    and neq: "\<not> compare (cells appA 0) (cvalue (cells appA 0)) 7"
    and sid: "stateId (cells appA 0) \<noteq> Some []"
    and n3: "3 \<in> set (querySelectorAll appA)" "eligible appA 0 3"
    and before: "childrenOf (nodes appA) 3 = [4]"
    using h unfolding Let_def by blast+
  have f1: "fst forced = Inr ()" unfolding forced_def by code_simp
  have c1: "childrenOf (nodes (snd forced)) 3 = [5]" unfolding forced_def by code_simp
  have f2: "fst changed = Inr ()" unfolding changed_def by code_simp
  note a = State_set_gate [of True appA 0 0, THEN conjunct1, rule_format]
  note b = State_set_gate [of False appA 0 7, THEN conjunct1, rule_format]
  note d = State_set_gate [of False appA 0 0, THEN conjunct2, rule_format]
  have a1: "cvalue (cells (snd forced) 0) = 0" unfolding forced_def using a by blast
  have a2: "rebuiltFrom (nodes appA) (nodes (snd forced)) 3"
    using a sid f1 n3 unfolding forced_def by blast
  have b1: "cvalue (cells (snd changed) 0) = 7" unfolding changed_def using b neq by blast
  have b2: "rebuiltFrom (nodes appA) (nodes (snd changed)) 3"
    using b neq sid f2 n3 unfolding changed_def by blast
  have d1: "State_set 0 0 False appA = (Inr (), appA)" using d eqv by blast
  have "compare (cells appA 0) (cvalue (cells appA 0)) 0
   \<and> \<not> compare (cells appA 0) (cvalue (cells appA 0)) 7
   \<and> stateId (cells appA 0) \<noteq> Some []
   \<and> 3 \<in> set (querySelectorAll appA) \<and> eligible appA 0 3
   \<and> childrenOf (nodes appA) 3 = [4]
   \<and> fst forced = Inr ()
   \<and> cvalue (cells (snd forced) 0) = 0
   \<and> rebuiltFrom (nodes appA) (nodes (snd forced)) 3
   \<and> childrenOf (nodes (snd forced)) 3 = [5]
   \<and> fst changed = Inr ()
   \<and> cvalue (cells (snd changed) 0) = 7
   \<and> rebuiltFrom (nodes appA) (nodes (snd changed)) 3
   \<and> State_set 0 0 False appA = (Inr (), appA)"
    using eqv neq sid n3 before f1 a1 a2 c1 f2 b1 b2 d1 by blast
  then show ?thesis unfolding forced_def changed_def .
qed

text \<open>
  C7.  A State constructed with the debug option has its debug flag set, and a \<open>set\<close> call
  on it, whether or not it replaces the value, leaves the console as it was: no trace of the
  old and new value is written.
\<close>

theorem debug_set_logs_nothing:
  "debug (cells (snd (State i initialValue optCompare (Some True) w)) (nextCell w))
   \<and> console (snd (State_set (nextCell w) newValue force
                     (snd (State i initialValue optCompare (Some True) w)))) = console w"
proof -
  let ?w1 = "snd (State i initialValue optCompare (Some True) w)"
  have c: "console ?w1 = console w" by (simp add: State_def)
  have "console (snd (State_set (nextCell w) newValue force ?w1)) = console ?w1"
    using notifyElements_kept [of "?w1\<lparr>cells := (cells ?w1)(nextCell w := (cells ?w1 (nextCell w))\<lparr>cvalue := newValue\<rparr>)\<rparr>" "nextCell w"]
    by (simp add: State_set_def kept_def)
  then show ?thesis using c by (simp add: State_def)
qed

theorem debug_set_logs_nothing_witness:
  "debug (cells (snd (State 0 0 None (Some True) page)) (nextCell page))
   \<and> console (snd (State_set (nextCell page) 5 False (snd (State 0 0 None (Some True) page))))
       = console page"
  using debug_set_logs_nothing [of 0 0 None page 5 False] by simp

section \<open>The insertion cursor\<close>

text \<open>
  C3.  Take any call of \<open>elem\<close> with a child-producing content function, at any depth (any
  handle state and stack) and with any builder calls inside the function, that returns
  normally, followed by any builder call at the outer level that returns normally.  The
  insertion parent \<open>p\<close> and the stack after the first call are those before it (pushed on
  entry, popped on return); the new element \<open>e\<close> was appended to \<open>p\<close>, and was the insertion
  parent while the content function ran, since it received one child per builder call the
  function made at its top level.  The next sibling is appended to \<open>p\<close> after \<open>e\<close> and not to
  \<open>e\<close> or anything below it: the children of \<open>e\<close> are unchanged by the second call.
\<close>

theorem cursor_restored_after_nested_call:
  assumes first: "exec i (Elem tag props (VFun src body)) (h, w) = (Inr e, h1, w1)"
      and second: "exec i c (h1, w1) = (Inr e2, h2, w2)"
  shows "\<exists>p. currentElement h = Some p \<and> currentElement h1 = Some p \<and> currentElement h2 = Some p
     \<and> stack (invocations w1 i) = stack (invocations w i)
     \<and> childrenOf (nodes w1) p = childrenOf (nodes w) p @ [e]
     \<and> length (childrenOf (nodes w1) e) = length body
     \<and> (\<exists>x. childrenOf (nodes w2) p = childrenOf (nodes w) p @ [e, x] \<and> length (nodes w1) \<le> x)
     \<and> childrenOf (nodes w2) e = childrenOf (nodes w1) e"
proof -
  have k: "\<And>x. built i (length body) x (execs i body x)" by (rule exec_built(2))
  have el: "elem i tag props (VFun src body) (execs i body) (h, w) = (Inr e, h1, w1)"
    using first by (simp add: bodyOf_def)
  from elem_returns [OF k el] obtain p where p: "currentElement h = Some p"
    "p < length (nodes w)" "e = length (nodes w)" "length (nodes w) < length (nodes w1)"
    "childrenOf (nodes w1) p = childrenOf (nodes w) p @ [e]"
    "length (childrenOf (nodes w1) e) = length body"
    by (auto simp: typeOf_def)
  have b1: "built i (Suc 0) (h, w) (Inr e, h1, w1)"
    using exec_built(1) [where i = i and c = "Elem tag props (VFun src body)" and hw = "(h, w)"] first
    by simp
  then have c1: "currentElement h1 = Some p"
    and s1: "stack (invocations w1 i) = stack (invocations w i)"
    using p(1) by (simp_all add: built_def)
  have b2: "built i (Suc 0) (h1, w1) (Inr e2, h2, w2)"
    using exec_built(1) [where i = i and c = c and hw = "(h1, w1)"] second by simp
  then have c2: "currentElement h2 = Some p"
    and g2: "grown (Some p) (nodes w1) (nodes w2)"
    and n2: "length (childrenOf (nodes w2) p) = length (childrenOf (nodes w1) p) + Suc 0"
    using c1 p(2,4) by (simp_all add: built_def)
  from g2 p(2,4) obtain new where new: "childrenOf (nodes w2) p = childrenOf (nodes w1) p @ new"
    "\<forall>m\<in>set new. length (nodes w1) \<le> m" unfolding grown_def by force
  from new(1) n2 have "length new = Suc 0" by simp
  then obtain x where x: "new = [x]" by (cases new) simp_all
  have "nodes w2 ! e = nodes w1 ! e" using g2 p(2,3,4) unfolding grown_def by simp
  then have "childrenOf (nodes w2) e = childrenOf (nodes w1) e" by (simp add: childrenOf_def)
  then show ?thesis using p c1 c2 s1 new x by simp
qed

theorem cursor_restored_after_nested_call_witness:
  "exec 0 threeDeep (atA, page)
     = (Inr 3, fst (snd (exec 0 threeDeep (atA, page))), snd (snd (exec 0 threeDeep (atA, page))))
   \<and> fst (exec 0 (Tag ''p'' (VStr ''next'') VUndef) (snd (exec 0 threeDeep (atA, page)))) = Inr 7
   \<and> currentElement (fst (snd (exec 0 threeDeep (atA, page)))) = Some 1
   \<and> childrenOf (nodes (snd (snd (exec 0 threeDeep (atA, page))))) 1 = [3]
   \<and> (\<exists>x. childrenOf (nodes (snd (snd (exec 0 (Tag ''p'' (VStr ''next'') VUndef)
                                   (snd (exec 0 threeDeep (atA, page))))))) 1 = [3, x])"
proof -
  define r1 where "r1 = exec 0 threeDeep (atA, page)"
  define r2 where "r2 = exec 0 (Tag ''p'' (VStr ''next'') VUndef) (snd r1)"
  have f1: "fst r1 = Inr 3" unfolding r1_def by code_simp
  have f2: "fst r2 = Inr 7" unfolding r2_def r1_def by code_simp
  have c0: "childrenOf (nodes page) 1 = []" by code_simp
  have c1: "currentElement atA = Some 1" by (simp add: atA_def)
  have e1: "r1 = (Inr 3, fst (snd r1), snd (snd r1))" using f1 by (metis prod.collapse)
  have e2: "r2 = (Inr 7, fst (snd r2), snd (snd r2))" using f2 by (metis prod.collapse)
  have h1: "exec 0 (Elem ''div'' (VObj None [])
       (VFun ''r => r.elem(ul, ...)''
         [Elem ''ul'' (VObj None [])
           (VFun ''r => r.li(...)''
             [Tag ''li'' (VFun ''r => r.text(deep)'' [Text (VStr ''deep'')]) VUndef])]))
         (atA, page) = (Inr 3, fst (snd r1), snd (snd r1))"
    using e1 unfolding r1_def threeDeep_def .
  have h2: "exec 0 (Tag ''p'' (VStr ''next'') VUndef) (fst (snd r1), snd (snd r1))
              = (Inr 7, fst (snd r2), snd (snd r2))"
    using e2 unfolding r2_def by (simp only: prod.collapse)
  from cursor_restored_after_nested_call [OF h1 h2]
  obtain p x where px: "currentElement atA = Some p" "currentElement (fst (snd r1)) = Some p"
    "childrenOf (nodes (snd (snd r1))) p = childrenOf (nodes page) p @ [3]"
    "childrenOf (nodes (snd (snd r2))) p = childrenOf (nodes page) p @ [3, x]"
    by blast
  have p: "p = 1" using px(1) c1 by simp
  have "r1 = (Inr 3, fst (snd r1), snd (snd r1)) \<and> fst r2 = Inr 7
      \<and> currentElement (fst (snd r1)) = Some 1
      \<and> childrenOf (nodes (snd (snd r1))) 1 = [3]
      \<and> (\<exists>x. childrenOf (nodes (snd (snd r2))) 1 = [3, x])"
    using e1 f2 px(2,3,4) c0 unfolding p by simp
  then show ?thesis unfolding r2_def r1_def .
qed

section \<open>Attributes and argument shapes\<close>

text \<open>
  C5 (as amended).  For every \<open>elem\<close> call that returns normally and whose props object
  has a boolean-whitelisted key: if the value is exactly \<open>true\<close> the created element bears
  the attribute with the empty value; if it is exactly \<open>false\<close>, or any other value, the
  element does not bear the attribute.  A value other than \<open>true\<close> and \<open>false\<close> is not
  passed on to the generic attribute rule: the key is skipped.
\<close>

theorem boolean_attribute_values:
  assumes run: "exec i (Elem tag (VObj watch es) content) (h, w) = (Inr e, h', w')"
    and keys: "distinct (map fst es)"
    and entry: "(key, val) \<in> set es"
    and bool: "key \<in> set booleanAttributes"
  shows "attributeOf (nodes w') e key = (if val = VBool True then Some [] else None)"
proof -
  have k: "\<And>x. built i (length (bodyOf content)) x (execs i (bodyOf content) x)"
    by (rule exec_built(2))
  have el: "elem i tag (VObj watch es) content (execs i (bodyOf content)) (h, w) = (Inr e, h', w')"
    using run by simp
  from elem_returns [OF k el] obtain el0 w1 where
    reg: "(case watch of
             Some watchArray \<Rightarrow> registerWatch i watchArray content (createElement tag) w
           | None \<Rightarrow> (createElement tag, w)) = (el0, w1)"
    and nd: "nodes w' ! e = withChildren (childrenOf (nodes w') e) (Element (foldl applyProp el0 es))"
    by (auto simp: watchOf_def entries_def)
  have "getAttribute key el0 = None"
    using reg boolean_not_special(4) [OF bool]
    by (auto simp: registerWatch_def Let_def getAttribute_simps split: option.splits)
  then have "getAttribute key (foldl applyProp el0 es) = (if val = VBool True then Some [] else None)"
    using applyProps_boolean [OF bool keys entry, of el0] by simp
  then show ?thesis using nd by (simp add: attributeOf_def withChildren_def getAttribute_simps)
qed

theorem boolean_attribute_values_witness:
  "exec 0 checkbox (atA, page)
     = (Inr 3, fst (snd (exec 0 checkbox (atA, page))), snd (snd (exec 0 checkbox (atA, page))))
   \<and> distinct (map fst checkboxProps)
   \<and> (''checked'', VBool True) \<in> set checkboxProps
   \<and> (''disabled'', VBool False) \<in> set checkboxProps
   \<and> (''hidden'', VStr ''false'') \<in> set checkboxProps
   \<and> ''checked'' \<in> set booleanAttributes
   \<and> ''disabled'' \<in> set booleanAttributes
   \<and> ''hidden'' \<in> set booleanAttributes
   \<and> attributeOf (nodes (snd (snd (exec 0 checkbox (atA, page))))) 3 ''checked'' = Some []
   \<and> attributeOf (nodes (snd (snd (exec 0 checkbox (atA, page))))) 3 ''disabled'' = None
   \<and> attributeOf (nodes (snd (snd (exec 0 checkbox (atA, page))))) 3 ''hidden'' = None"
proof -
  define r1 where "r1 = exec 0 checkbox (atA, page)"
  have f1: "fst r1 = Inr 3" unfolding r1_def by code_simp
  have e1: "r1 = (Inr 3, fst (snd r1), snd (snd r1))" using f1 by (metis prod.collapse)
  have h1: "exec 0 (Elem ''input'' (VObj None checkboxProps) VUndef) (atA, page)
              = (Inr 3, fst (snd r1), snd (snd r1))"
    using e1 unfolding r1_def checkbox_def .
  have d: "distinct (map fst checkboxProps)" by code_simp
  have m1: "(''checked'', VBool True) \<in> set checkboxProps" by (simp add: checkboxProps_def)
  have m2: "(''disabled'', VBool False) \<in> set checkboxProps" by (simp add: checkboxProps_def)
  have m3: "(''hidden'', VStr ''false'') \<in> set checkboxProps" by (simp add: checkboxProps_def)
  have b1: "''checked'' \<in> set booleanAttributes" by (simp add: booleanAttributes_def)
  have b2: "''disabled'' \<in> set booleanAttributes" by (simp add: booleanAttributes_def)
  have b3: "''hidden'' \<in> set booleanAttributes" by (simp add: booleanAttributes_def)
  have "r1 = (Inr 3, fst (snd r1), snd (snd r1))
   \<and> distinct (map fst checkboxProps)
   \<and> (''checked'', VBool True) \<in> set checkboxProps
   \<and> (''disabled'', VBool False) \<in> set checkboxProps
   \<and> (''hidden'', VStr ''false'') \<in> set checkboxProps
   \<and> ''checked'' \<in> set booleanAttributes
   \<and> ''disabled'' \<in> set booleanAttributes
   \<and> ''hidden'' \<in> set booleanAttributes
   \<and> attributeOf (nodes (snd (snd r1))) 3 ''checked'' = Some []
   \<and> attributeOf (nodes (snd (snd r1))) 3 ''disabled'' = None
   \<and> attributeOf (nodes (snd (snd r1))) 3 ''hidden'' = None"
    using boolean_attribute_values [OF h1 d m1 b1] boolean_attribute_values [OF h1 d m2 b2]
      boolean_attribute_values [OF h1 d m3 b3] e1 d m1 m2 m3 b1 b2 b3
    by simp
  then show ?thesis unfolding r1_def .
qed

theorem boolean_attribute_string_counterexample:
  "fst (exec 0 checkbox (atA, page)) = Inr 3
   \<and> (''hidden'', VStr ''false'') \<in> set checkboxProps
   \<and> attributeOf (nodes (snd (snd (exec 0 checkbox (atA, page))))) 3 ''hidden'' \<noteq> Some ''false''"
  by code_simp




section \<open>Static generation\<close>

text \<open>
  C8 (as amended).  What a builder adds to the output of \<open>createStatic\<close> does not depend on
  the text accumulated before it runs, and each call starts from the empty string, so two
  calls with the same builder return the same string.  A function-valued prop adds nothing
  to the output unless its key is \<open>style\<close> (attributes are the same as for the props without
  such entries).  Escaped text contains none of \<open><\<close>, \<open>>\<close> and the two quotes, \<open><\<close> is
  written \<open>&lt;\<close>, and literal content not flagged \<open>html: true\<close>, like the content of
  \<open>text\<close>, is written escaped.
\<close>

theorem static_generation_purity:
  "(\<forall>pre. staticExecs cs pre = (fst (staticExecs cs []), pre @ snd (staticExecs cs [])))
   \<and> staticAttrs a es
       = staticAttrs a (filter (\<lambda>(k, v). typeOf v \<noteq> ''function'' \<or> k = ''style'') es)
   \<and> CHR ''<'' \<notin> set (escapeHtml v) \<and> CHR ''>'' \<notin> set (escapeHtml v)
   \<and> CHR 0x22 \<notin> set (escapeHtml v) \<and> CHR 0x27 \<notin> set (escapeHtml v)
   \<and> escapeHtml (VStr ''<'') = ''&lt;''
   \<and> (typeOf content \<noteq> ''function'' \<and> content \<noteq> VUndef \<and> props \<noteq> VUndef \<and> props \<noteq> VNull
        \<and> \<not> htmlFlag props \<and> staticAttrs [] (entries props) = Inr attrs \<longrightarrow>
        staticElem tag props content k html
          = (Inr (), html @ ''<'' @ tag @ attrs @ ''>'' @ escapeHtml content
                      @ (if tag \<notin> set selfClosingTags then ''</'' @ tag @ ''>'' else [])))
   \<and> staticText content html = (Inr (), html @ escapeHtml content)"
proof (intro conjI)
  show "\<forall>pre. staticExecs cs pre = (fst (staticExecs cs []), pre @ snd (staticExecs cs []))"
    by (rule staticExec_acc_all(2))
  show "staticAttrs a es
       = staticAttrs a (filter (\<lambda>(k, v). typeOf v \<noteq> ''function'' \<or> k = ''style'') es)"
    by (rule staticAttrs_function)
  show "CHR ''<'' \<notin> set (escapeHtml v)" "CHR ''>'' \<notin> set (escapeHtml v)"
    "CHR 0x22 \<notin> set (escapeHtml v)" "CHR 0x27 \<notin> set (escapeHtml v)"
    by (rule escapeHtml_safe)+
  show "escapeHtml (VStr ''<'') = ''&lt;''"
    by (simp add: escapeHtml_def replaceAll_def toString_def)
  show "typeOf content \<noteq> ''function'' \<and> content \<noteq> VUndef \<and> props \<noteq> VUndef \<and> props \<noteq> VNull
        \<and> \<not> htmlFlag props \<and> staticAttrs [] (entries props) = Inr attrs \<longrightarrow>
        staticElem tag props content k html
          = (Inr (), html @ ''<'' @ tag @ attrs @ ''>'' @ escapeHtml content
                      @ (if tag \<notin> set selfClosingTags then ''</'' @ tag @ ''>'' else []))"
    by (simp add: staticElem_def Let_def)
  show "staticText content html = (Inr (), html @ escapeHtml content)"
    by (simp add: staticText_def)
qed

theorem static_generation_purity_witness:
  "typeOf (VStr ''1 < 2'') \<noteq> ''function'' \<and> VStr ''1 < 2'' \<noteq> VUndef
   \<and> paragraphProps \<noteq> VUndef \<and> paragraphProps \<noteq> VNull \<and> \<not> htmlFlag paragraphProps
   \<and> staticAttrs [] (entries paragraphProps) = Inr ('' title='' @ dquote @ ''a&lt;b'' @ dquote)
   \<and> staticElem ''p'' paragraphProps (VStr ''1 < 2'') (staticExecs []) []
        = (Inr (), ''<p'' @ ('' title='' @ dquote @ ''a&lt;b'' @ dquote) @ ''>''
                     @ escapeHtml (VStr ''1 < 2'') @ ''</p>'')
   \<and> createStatic (VFun ''r => r.p(...)'' paragraphCalls)
        = Inr (''<p title='' @ dquote @ ''a&lt;b'' @ dquote @ ''>1 &lt; 2</p>'')"
proof -
  have h: "typeOf (VStr ''1 < 2'') \<noteq> ''function''" "VStr ''1 < 2'' \<noteq> VUndef"
    "paragraphProps \<noteq> VUndef" "paragraphProps \<noteq> VNull" "\<not> htmlFlag paragraphProps"
    by (simp_all add: typeOf_def paragraphProps_def htmlFlag_def)
  have a: "staticAttrs [] (entries paragraphProps) = Inr ('' title='' @ dquote @ ''a&lt;b'' @ dquote)"
    by code_simp
  have p: "''p'' \<notin> set selfClosingTags" by (simp add: selfClosingTags_def)
  have c: "createStatic (VFun ''r => r.p(...)'' paragraphCalls)
        = Inr (''<p title='' @ dquote @ ''a&lt;b'' @ dquote @ ''>1 &lt; 2</p>'')"
    by code_simp
  have "staticElem ''p'' paragraphProps (VStr ''1 < 2'') (staticExecs []) []
        = (Inr (), [] @ ''<'' @ ''p'' @ ('' title='' @ dquote @ ''a&lt;b'' @ dquote) @ ''>''
                     @ escapeHtml (VStr ''1 < 2'')
                     @ (if ''p'' \<notin> set selfClosingTags then ''</'' @ ''p'' @ ''>'' else []))"
    using static_generation_purity [of "[]" "[]" "[]" VUndef "VStr ''1 < 2''" paragraphProps
        "'' title='' @ dquote @ ''a&lt;b'' @ dquote" "''p''" "staticExecs []" "[]"] h a
    by blast
  then have "staticElem ''p'' paragraphProps (VStr ''1 < 2'') (staticExecs []) []
        = (Inr (), ''<p'' @ ('' title='' @ dquote @ ''a&lt;b'' @ dquote) @ ''>''
                     @ escapeHtml (VStr ''1 < 2'') @ ''</p>'')"
    using p by simp
  then show ?thesis using h a c by blast
qed

theorem static_function_style_counterexample:
  "createStatic (VFun ''r => r.div(...)'' [Tag ''div'' (VObj None [(''style'', VFun ''f'' [])]) VUndef])
     = Inr (''<div style='' @ dquote @ ''f'' @ dquote @ ''></div>'')
   \<and> createStatic (VFun ''r => r.div(...)'' [Tag ''div'' (VObj None [(''style'', VFun ''f'' [])]) VUndef])
     \<noteq> createStatic (VFun ''r => r.div(...)'' [Tag ''div'' (VObj None []) VUndef])"
  by code_simp

section \<open>Identities across invocations\<close>

text \<open>
  C10.  Each \<open>rsf\<close> call starts its own identity counter at zero, so identities are unique
  only within one call.  On the page with the containers \<open>#a\<close> and \<open>#b\<close>, two \<open>rsf\<close> calls
  (the invocations 0 and 1) each render one element watching one State that had no identity
  before; both States receive the identity \<open>state-0\<close>.  A \<open>set\<close> on the first State then
  rebuilds the element of the second call, which declared a watch on the second State only:
  its child, node 6, is replaced by the newly built text node 8.
\<close>

theorem identity_collision_across_invocations:
  "(let first = rsf idSelector ''#a'' watcherA [] page;
        second = rsf idSelector ''#b'' watcherB [] (snd first);
        after = State_set 0 7 False (snd second)
    in fst first = Inr 0 \<and> fst second = Inr 1
     \<and> stateId (cells page 0) = None \<and> stateId (cells page 1) = None
     \<and> stateId (cells (snd second) 0) = Some ''state-0''
     \<and> stateId (cells (snd second) 1) = Some ''state-0''
     \<and> attributeOf (nodes (snd second)) 5 ''data-rsf-watching'' = Some ''state-0''
     \<and> childrenOf (nodes (snd second)) 5 = [6]
     \<and> fst after = Inr ()
     \<and> childrenOf (nodes (snd after)) 5 = [8]
     \<and> nodes (snd after) ! 8 = TextNode ''B'')"
  by code_simp

theorem identity_collision_across_invocations_witness:
  "(let first = rsf idSelector ''#a'' watcherA [] page;
        second = rsf idSelector ''#b'' watcherB [] (snd first);
        after = State_set 0 7 False (snd second)
    in stateId (cells (snd second) 0) = stateId (cells (snd second) 1)
     \<and> childrenOf (nodes (snd after)) 5 \<noteq> childrenOf (nodes (snd second)) 5)"
  using identity_collision_across_invocations unfolding Let_def by simp

section \<open>The scope of a notification\<close>

text \<open>
  C2 (as amended).  Take a \<open>set\<close> call that notifies (it is forced, or the comparator
  reports a change), on a State whose identity is
  not the empty string.  Every node that existed before the call keeps its attributes (the
  marker among them) and its stored rebuild procedure, and is the same node except possibly
  for its list of children.  The elements rebuilt are those found by the scan of the
  document whose marker lists the identity of the State and whose stored procedure is
  truthy: when the call returns normally each of them has only children created during the
  call, one for each builder call its procedure makes at its top level.  Every other node,
  in particular an element whose marker does not list the identity and a watcher without a
  stored procedure, has its list of children unchanged as well.  (An unchanged element may
  still contain a rebuilt element.)
\<close>

theorem notification_scope:
  assumes gate: "force \<or> \<not> compare (cells w c) (cvalue (cells w c)) newValue"
    and run: "State_set c newValue force w = (res, w')"
    and sid: "stateId (cells w c) \<noteq> Some []"
  shows "\<forall>n<length (nodes w).
           attributeOf (nodes w') n = attributeOf (nodes w) n
         \<and> renderOf (nodes w') n = renderOf (nodes w) n
         \<and> nodes w' ! n = withChildren (childrenOf (nodes w') n) (nodes w ! n)
         \<and> (if n \<in> set (querySelectorAll w) \<and> eligible w c n
            then res = Inr () \<longrightarrow> rebuiltFrom (nodes w) (nodes w') n
            else nodes w' ! n = nodes w ! n)"
proof (intro allI impI)
  fix n assume n: "n < length (nodes w)"
  let ?w1 = "w\<lparr>cells := (cells w)(c := (cells w c)\<lparr>cvalue := newValue\<rparr>)\<rparr>"
  let ?L = "querySelectorAll w"
  have fe: "forEach (notifyElement c) ?L ?w1 = (res, w')"
    using gate run by (auto simp: State_set_def notifyElements_def value_update_facts)
  have sub: "set ?L \<subseteq> {..<length (nodes ?w1)}"
    using querySelectorAll_bound [of _ w] by auto
  have sid1: "stateId (cells ?w1 c) \<noteq> Some []" using sid by simp
  note p = notify_pass [OF fe sub sid1, unfolded value_update_facts]
  have shell: "nodes w' ! n = withChildren (childrenOf (nodes w') n) (nodes w ! n)"
    using p n by blast
  have a: "attributeOf (nodes w') n = attributeOf (nodes w) n"
    using shell_facts(1) [OF shell] by (rule ext)
  have r: "renderOf (nodes w') n = renderOf (nodes w) n" using shell_facts(2) [OF shell] .
  have "rebuiltFrom (nodes w) (nodes w') n"
    if "n \<in> set ?L" "eligible w c n" "res = Inr ()"
    using p that shell unfolding rebuiltFrom_def by blast
  moreover have "nodes w' ! n = nodes w ! n" if "\<not> (n \<in> set ?L \<and> eligible w c n)"
    using p that n by blast
  ultimately show "attributeOf (nodes w') n = attributeOf (nodes w) n
         \<and> renderOf (nodes w') n = renderOf (nodes w) n
         \<and> nodes w' ! n = withChildren (childrenOf (nodes w') n) (nodes w ! n)
         \<and> (if n \<in> set (querySelectorAll w) \<and> eligible w c n
            then res = Inr () \<longrightarrow> rebuiltFrom (nodes w) (nodes w') n
            else nodes w' ! n = nodes w ! n)"
    using a r shell by simp
qed

theorem notification_scope_witness:
  "(False \<or> \<not> compare (cells appA 0) (cvalue (cells appA 0)) 7)
   \<and> stateId (cells appA 0) \<noteq> Some []
   \<and> 3 < length (nodes appA) \<and> 3 \<in> set (querySelectorAll appA) \<and> eligible appA 0 3
   \<and> 1 < length (nodes appA) \<and> \<not> (1 \<in> set (querySelectorAll appA) \<and> eligible appA 0 1)
   \<and> fst (State_set 0 7 False appA) = Inr ()
   \<and> rebuiltFrom (nodes appA) (nodes (snd (State_set 0 7 False appA))) 3
   \<and> nodes (snd (State_set 0 7 False appA)) ! 1 = nodes appA ! 1"
proof -
  define out where "out = State_set 0 7 False appA"
  have h: "(let w = appA in
      (False \<or> \<not> compare (cells w 0) (cvalue (cells w 0)) 7)
      \<and> stateId (cells w 0) \<noteq> Some []
      \<and> 3 < length (nodes w) \<and> 3 \<in> set (querySelectorAll w) \<and> eligible w 0 3
      \<and> 1 < length (nodes w) \<and> \<not> (1 \<in> set (querySelectorAll w) \<and> eligible w 0 1))"
    by code_simp
  have f: "fst out = Inr ()" unfolding out_def by code_simp
  have run: "State_set 0 7 False appA = (Inr (), snd out)"
    using f unfolding out_def by (metis prod.collapse)
  have g: "False \<or> \<not> compare (cells appA 0) (cvalue (cells appA 0)) 7"
    and s: "stateId (cells appA 0) \<noteq> Some []"
    and n3: "3 < length (nodes appA)" "3 \<in> set (querySelectorAll appA) \<and> eligible appA 0 3"
    and n1: "1 < length (nodes appA)" "\<not> (1 \<in> set (querySelectorAll appA) \<and> eligible appA 0 1)"
    using h unfolding Let_def by blast+
  note t = notification_scope [OF g run s, rule_format]
  note t3 = t [OF n3(1), THEN conjunct2, THEN conjunct2, THEN conjunct2]
  note t1 = t [OF n1(1), THEN conjunct2, THEN conjunct2, THEN conjunct2]
  have r3: "rebuiltFrom (nodes appA) (nodes (snd out)) 3"
    using t3 n3(2) by (simp only: if_True simp_thms)
  have r1: "nodes (snd out) ! 1 = nodes appA ! 1"
    using t1 n1(2) by (simp only: if_False simp_thms)
  from r3 r1 have "(False \<or> \<not> compare (cells appA 0) (cvalue (cells appA 0)) 7)
   \<and> stateId (cells appA 0) \<noteq> Some []
   \<and> 3 < length (nodes appA) \<and> 3 \<in> set (querySelectorAll appA) \<and> eligible appA 0 3
   \<and> 1 < length (nodes appA) \<and> \<not> (1 \<in> set (querySelectorAll appA) \<and> eligible appA 0 1)
   \<and> fst out = Inr ()
   \<and> rebuiltFrom (nodes appA) (nodes (snd out)) 3
   \<and> nodes (snd out) ! 1 = nodes appA ! 1"
    using g s n3 n1 f by blast
  then show ?thesis unfolding out_def .
qed

theorem notification_scope_counterexample:
  "(let first = rsf idSelector ''#a'' nestedWatchers [] page;
        w = snd first;
        after = State_set 0 7 False w
    in fst first = Inr 0 \<and> fst after = Inr ()
     \<and> stateId (cells w 0) = Some ''state-1''
     \<and> attributeOf (nodes w) 3 ''data-rsf-watching'' = Some ''state-0''
     \<and> 4 \<in> set (childrenOf (nodes w) 3)
     \<and> childrenOf (nodes (snd after)) 4 \<noteq> childrenOf (nodes w) 4
     \<and> 6 \<in> set (querySelectorAll w)
     \<and> attributeOf (nodes w) 6 ''data-rsf-watching'' = Some ''state-1''
     \<and> nodes (snd after) ! 6 = nodes w ! 6)"
  by code_simp

section \<open>A literal stored as rebuild procedure\<close>

text \<open>
  C9 (as amended).  An \<open>elem\<close> call with a \<open>watch\<close> property and a literal (non-function)
  content stores the literal as the rebuild procedure of the element.  Take an element of
  the document scan whose marker lists the identity of a State (not the empty string) and
  whose stored procedure is a truthy literal.  A notifying \<open>set\<close> on that State never
  returns normally.  When the notifications of the elements that precede it in the scan
  return normally (some of them rebuilt, the others skipped), the element is reached: its
  children are removed and the call ends with the TypeError of calling a non-function, the
  world being the one the preceding notifications left, with the element emptied.  When one
  of the preceding notifications throws, the call ends with that error in that world and the
  element is not reached.  An element that carries a marker and whose stored procedure is
  falsy (\<open>0\<close>, the empty string, \<open>false\<close>, \<open>null\<close>) is skipped by the guard
  \<open>if (renderFn)\<close>: its notification returns normally and changes nothing, and a \<open>set\<close>
  call leaves the element as it was, children included.
\<close>

theorem literal_rebuild_procedure:
  "(exec i (Elem tag (VObj (Some watchArray) es) content) (h, w) = (Inr e, h', w')
      \<and> typeOf content \<noteq> ''function'' \<longrightarrow> renderOf (nodes w') e = content)
   \<and> (e \<in> set (querySelectorAll w2)
      \<and> eligible w2 c e
      \<and> typeOf (renderOf (nodes w2) e) \<noteq> ''function''
      \<and> stateId (cells w2 c) \<noteq> Some []
      \<and> (force \<or> \<not> compare (cells w2 c) (cvalue (cells w2 c)) newValue) \<longrightarrow>
        fst (State_set c newValue force w2) \<noteq> Inr ()
      \<and> (\<forall>wm. forEach (notifyElement c) (takeWhile (\<lambda>x. x \<noteq> e) (querySelectorAll w2))
                  (w2\<lparr>cells := (cells w2)(c := (cells w2 c)\<lparr>cvalue := newValue\<rparr>)\<rparr>)
                = (Inr (), wm) \<longrightarrow>
              State_set c newValue force w2
                = (Inl (TypeError ''renderFn is not a function''), clearChildren e wm)
            \<and> childrenOf (nodes (snd (State_set c newValue force w2))) e = [])
      \<and> (\<forall>err wm. forEach (notifyElement c) (takeWhile (\<lambda>x. x \<noteq> e) (querySelectorAll w2))
                  (w2\<lparr>cells := (cells w2)(c := (cells w2 c)\<lparr>cvalue := newValue\<rparr>)\<rparr>)
                = (Inl err, wm) \<longrightarrow>
              State_set c newValue force w2 = (Inl err, wm)))
   \<and> (attributeOf (nodes w2) e ''data-rsf-watching'' \<noteq> None
      \<and> \<not> truthy (renderOf (nodes w2) e) \<longrightarrow>
        notifyElement c e w2 = (Inr (), w2)
      \<and> (e < length (nodes w2) \<and> stateId (cells w2 c) \<noteq> Some [] \<longrightarrow>
           nodes (snd (State_set c newValue force w2)) ! e = nodes w2 ! e))"
proof -
  let ?w1 = "w2\<lparr>cells := (cells w2)(c := (cells w2 c)\<lparr>cvalue := newValue\<rparr>)\<rparr>"
  let ?pre = "takeWhile (\<lambda>x. x \<noteq> e) (querySelectorAll w2)"
  let ?out = "State_set c newValue force w2"
  have stored: "renderOf (nodes w') e = content"
    if a: "exec i (Elem tag (VObj (Some watchArray) es) content) (h, w) = (Inr e, h', w')
      \<and> typeOf content \<noteq> ''function''"
  proof -
    have k: "\<And>x. built i (length (bodyOf content)) x (execs i (bodyOf content) x)"
      by (rule exec_built(2))
    have el: "elem i tag (VObj (Some watchArray) es) content (execs i (bodyOf content)) (h, w)
                = (Inr e, h', w')"
      using a by simp
    from elem_returns [OF k el] obtain el0 w1 where
      reg: "registerWatch i watchArray content (createElement tag) w = (el0, w1)"
      and nd: "nodes w' ! e = withChildren (childrenOf (nodes w') e) (Element (foldl applyProp el0 es))"
      by (auto simp: watchOf_def entries_def)
    have "rsfRender el0 = content" using reg by (auto simp: registerWatch_def Let_def)
    then show ?thesis
      using nd by (simp add: renderOf_def withChildren_def applyProps_shell)
  qed
  have truthy_part:
    "fst ?out \<noteq> Inr ()
      \<and> (\<forall>wm. forEach (notifyElement c) ?pre ?w1 = (Inr (), wm) \<longrightarrow>
              ?out = (Inl (TypeError ''renderFn is not a function''), clearChildren e wm)
            \<and> childrenOf (nodes (snd ?out)) e = [])
      \<and> (\<forall>err wm. forEach (notifyElement c) ?pre ?w1 = (Inl err, wm) \<longrightarrow> ?out = (Inl err, wm))"
    if a: "e \<in> set (querySelectorAll w2)
      \<and> eligible w2 c e
      \<and> typeOf (renderOf (nodes w2) e) \<noteq> ''function''
      \<and> stateId (cells w2 c) \<noteq> Some []
      \<and> (force \<or> \<not> compare (cells w2 c) (cvalue (cells w2 c)) newValue)"
  proof -
    have s: "?out = notifyElements c ?w1" using a by (auto simp: State_set_def)
    have scan: "e \<in> set (querySelectorAll ?w1)" using a by (simp add: value_update_facts)
    have el: "eligible ?w1 c e" using a by (simp add: value_update_facts)
    have lit: "typeOf (renderOf (nodes ?w1) e) \<noteq> ''function''" using a by simp
    have sid: "stateId (cells ?w1 c) \<noteq> Some []" using a by simp
    note r = notify_literal_reached [OF scan el lit sid, unfolded value_update_facts]
    have one: "fst ?out \<noteq> Inr ()" using r(3) s by simp
    have two: "?out = (Inl (TypeError ''renderFn is not a function''), clearChildren e wm)
            \<and> childrenOf (nodes (snd ?out)) e = []"
      if "forEach (notifyElement c) ?pre ?w1 = (Inr (), wm)" for wm
      using r(1) [OF that] s by (simp add: clearChildren_at)
    have three: "?out = (Inl err, wm)"
      if "forEach (notifyElement c) ?pre ?w1 = (Inl err, wm)" for err wm
      using r(2) [OF that] s by simp
    show ?thesis using one two three by blast
  qed
  have falsy_part:
    "notifyElement c e w2 = (Inr (), w2)
      \<and> (e < length (nodes w2) \<and> stateId (cells w2 c) \<noteq> Some [] \<longrightarrow>
           nodes (snd ?out) ! e = nodes w2 ! e)"
    if a: "attributeOf (nodes w2) e ''data-rsf-watching'' \<noteq> None
      \<and> \<not> truthy (renderOf (nodes w2) e)"
  proof -
    have ne: "\<not> eligible w2 c e" using a by (simp add: eligible_def split: option.splits)
    have "notifyElement c e w2 = (Inr (), w2)"
      using notifyElement_skip(2) [OF ne] a by blast
    moreover have "nodes (snd ?out) ! e = nodes w2 ! e"
      if "e < length (nodes w2)" "stateId (cells w2 c) \<noteq> Some []"
      using State_set_unchanged [of w2 c e newValue force] that ne by blast
    ultimately show ?thesis by blast
  qed
  show ?thesis using stored truthy_part falsy_part by blast
qed

theorem literal_rebuild_procedure_witness:
  "(fst (exec 0 (Elem ''p'' (VObj (Some [0]) []) (VStr ''hello'')) (atA, page)) = Inr 3
      \<and> typeOf (VStr ''hello'') \<noteq> ''function''
      \<and> renderOf (nodes (snd (snd (exec 0 (Elem ''p'' (VObj (Some [0]) []) (VStr ''hello''))
                                      (atA, page))))) 3 = VStr ''hello'')
   \<and> (5 \<in> set (querySelectorAll mixedApp)
      \<and> eligible mixedApp 0 5
      \<and> typeOf (renderOf (nodes mixedApp) 5) \<noteq> ''function''
      \<and> stateId (cells mixedApp 0) \<noteq> Some []
      \<and> (False \<or> \<not> compare (cells mixedApp 0) (cvalue (cells mixedApp 0)) 7)
      \<and> takeWhile (\<lambda>x. x \<noteq> 5) (querySelectorAll mixedApp) = [3]
      \<and> eligible mixedApp 0 3
      \<and> fst (forEach (notifyElement 0) [3]
                (mixedApp\<lparr>cells := (cells mixedApp)(0 := (cells mixedApp 0)\<lparr>cvalue := 7\<rparr>)\<rparr>))
          = Inr ()
      \<and> childrenOf (nodes mixedApp) 3 = [4]
      \<and> childrenOf (nodes mixedApp) 5 = [6]
      \<and> State_set 0 7 False mixedApp
          = (Inl (TypeError ''renderFn is not a function''),
             clearChildren 5 (snd (forEach (notifyElement 0) [3]
                (mixedApp\<lparr>cells := (cells mixedApp)(0 := (cells mixedApp 0)\<lparr>cvalue := 7\<rparr>)\<rparr>))))
      \<and> childrenOf (nodes (snd (State_set 0 7 False mixedApp))) 3 = [7]
      \<and> childrenOf (nodes (snd (State_set 0 7 False mixedApp))) 5 = [])
   \<and> (5 \<in> set (querySelectorAll twoLitApp)
      \<and> eligible twoLitApp 0 5
      \<and> typeOf (renderOf (nodes twoLitApp) 5) \<noteq> ''function''
      \<and> stateId (cells twoLitApp 0) \<noteq> Some []
      \<and> takeWhile (\<lambda>x. x \<noteq> 5) (querySelectorAll twoLitApp) = [3]
      \<and> fst (forEach (notifyElement 0) [3]
                (twoLitApp\<lparr>cells := (cells twoLitApp)(0 := (cells twoLitApp 0)\<lparr>cvalue := 7\<rparr>)\<rparr>))
          = Inl (TypeError ''renderFn is not a function'')
      \<and> State_set 0 7 False twoLitApp
          = (Inl (TypeError ''renderFn is not a function''),
             snd (forEach (notifyElement 0) [3]
                (twoLitApp\<lparr>cells := (cells twoLitApp)(0 := (cells twoLitApp 0)\<lparr>cvalue := 7\<rparr>)\<rparr>)))
      \<and> childrenOf (nodes (snd (State_set 0 7 False twoLitApp))) 5 = [6])
   \<and> (attributeOf (nodes zeroApp) 3 ''data-rsf-watching'' = Some ''state-0''
      \<and> stateId (cells zeroApp 0) = Some ''state-0''
      \<and> \<not> truthy (renderOf (nodes zeroApp) 3)
      \<and> 3 < length (nodes zeroApp)
      \<and> notifyElement 0 3 zeroApp = (Inr (), zeroApp)
      \<and> nodes (snd (State_set 0 7 False zeroApp)) ! 3 = nodes zeroApp ! 3)"
proof -
  define r1 where "r1 = exec 0 (Elem ''p'' (VObj (Some [0]) []) (VStr ''hello'')) (atA, page)"
  define w1 where "w1 = mixedApp\<lparr>cells := (cells mixedApp)(0 := (cells mixedApp 0)\<lparr>cvalue := 7\<rparr>)\<rparr>"
  define pass where "pass = forEach (notifyElement 0) [3] w1"
  define out where "out = State_set 0 7 False mixedApp"
  define w2 where "w2 = twoLitApp\<lparr>cells := (cells twoLitApp)(0 := (cells twoLitApp 0)\<lparr>cvalue := 7\<rparr>)\<rparr>"
  define pass2 where "pass2 = forEach (notifyElement 0) [3] w2"
  define out2 where "out2 = State_set 0 7 False twoLitApp"
  have f1: "fst r1 = Inr 3" unfolding r1_def by code_simp
  have e1: "exec 0 (Elem ''p'' (VObj (Some [0]) []) (VStr ''hello'')) (atA, page)
              = (Inr 3, fst (snd r1), snd (snd r1))"
    using f1 unfolding r1_def by (metis prod.collapse)
  have t1: "typeOf (VStr ''hello'') \<noteq> ''function''" by (simp add: typeOf_def)
  have h: "(let w = mixedApp in
       5 \<in> set (querySelectorAll w)
     \<and> eligible w 0 5
     \<and> typeOf (renderOf (nodes w) 5) \<noteq> ''function''
     \<and> stateId (cells w 0) \<noteq> Some []
     \<and> (False \<or> \<not> compare (cells w 0) (cvalue (cells w 0)) 7)
     \<and> takeWhile (\<lambda>x. x \<noteq> 5) (querySelectorAll w) = [3]
     \<and> eligible w 0 3
     \<and> childrenOf (nodes w) 3 = [4]
     \<and> childrenOf (nodes w) 5 = [6])"
    by code_simp
  have h2: "5 \<in> set (querySelectorAll mixedApp)"
    "eligible mixedApp 0 5"
    "typeOf (renderOf (nodes mixedApp) 5) \<noteq> ''function''"
    "stateId (cells mixedApp 0) \<noteq> Some []"
    "False \<or> \<not> compare (cells mixedApp 0) (cvalue (cells mixedApp 0)) 7"
    and pre: "takeWhile (\<lambda>x. x \<noteq> 5) (querySelectorAll mixedApp) = [3]"
    and h3: "eligible mixedApp 0 3" "childrenOf (nodes mixedApp) 3 = [4]"
      "childrenOf (nodes mixedApp) 5 = [6]"
    using h unfolding Let_def by blast+
  have fp: "fst pass = Inr ()" unfolding pass_def w1_def by code_simp
  have ep: "forEach (notifyElement 0) (takeWhile (\<lambda>x. x \<noteq> 5) (querySelectorAll mixedApp)) w1
              = (Inr (), snd pass)"
    using fp unfolding pass_def pre by (metis prod.collapse)
  have c3: "childrenOf (nodes (snd out)) 3 = [7]" unfolding out_def by code_simp
  have g: "(let w = twoLitApp in
       5 \<in> set (querySelectorAll w)
     \<and> eligible w 0 5
     \<and> typeOf (renderOf (nodes w) 5) \<noteq> ''function''
     \<and> stateId (cells w 0) \<noteq> Some []
     \<and> (False \<or> \<not> compare (cells w 0) (cvalue (cells w 0)) 7)
     \<and> takeWhile (\<lambda>x. x \<noteq> 5) (querySelectorAll w) = [3])"
    by code_simp
  have g2: "5 \<in> set (querySelectorAll twoLitApp)"
    "eligible twoLitApp 0 5"
    "typeOf (renderOf (nodes twoLitApp) 5) \<noteq> ''function''"
    "stateId (cells twoLitApp 0) \<noteq> Some []"
    "False \<or> \<not> compare (cells twoLitApp 0) (cvalue (cells twoLitApp 0)) 7"
    and pre2: "takeWhile (\<lambda>x. x \<noteq> 5) (querySelectorAll twoLitApp) = [3]"
    using g unfolding Let_def by blast+
  have fp2: "fst pass2 = Inl (TypeError ''renderFn is not a function'')"
    unfolding pass2_def w2_def by code_simp
  have ep2: "forEach (notifyElement 0) (takeWhile (\<lambda>x. x \<noteq> 5) (querySelectorAll twoLitApp)) w2
              = (Inl (TypeError ''renderFn is not a function''), snd pass2)"
    using fp2 unfolding pass2_def pre2 by (metis prod.collapse)
  have c5: "childrenOf (nodes (snd out2)) 5 = [6]" unfolding out2_def by code_simp
  have z: "(let w = zeroApp in
       attributeOf (nodes w) 3 ''data-rsf-watching'' = Some ''state-0''
     \<and> stateId (cells w 0) = Some ''state-0''
     \<and> \<not> truthy (renderOf (nodes w) 3)
     \<and> 3 < length (nodes w))"
    by code_simp
  have z1: "attributeOf (nodes zeroApp) 3 ''data-rsf-watching'' = Some ''state-0''"
    "stateId (cells zeroApp 0) = Some ''state-0''"
    "\<not> truthy (renderOf (nodes zeroApp) 3)"
    "3 < length (nodes zeroApp)"
    using z unfolding Let_def by blast+
  have z2: "attributeOf (nodes zeroApp) 3 ''data-rsf-watching'' \<noteq> None"
    "stateId (cells zeroApp 0) \<noteq> Some []"
    using z1 by simp_all
  note a = literal_rebuild_procedure [where i = 0 and tag = "''p''" and watchArray = "[0]"
      and es = "[]" and content = "VStr ''hello''" and h = atA and w = page and e = 3
      and h' = "fst (snd r1)" and w' = "snd (snd r1)", THEN conjunct1, rule_format, OF conjI [OF e1 t1]]
  note b = literal_rebuild_procedure [where e = 5 and ?w2.0 = mixedApp and c = 0 and force = False
      and newValue = 7, THEN conjunct2, THEN conjunct1, rule_format]
  note b2 = literal_rebuild_procedure [where e = 5 and ?w2.0 = twoLitApp and c = 0 and force = False
      and newValue = 7, THEN conjunct2, THEN conjunct1, rule_format]
  have b3: "out2 = (Inl (TypeError ''renderFn is not a function''), snd pass2)"
    unfolding out2_def using b2 g2 ep2 [unfolded w2_def] by blast
  note c = literal_rebuild_procedure [where e = 3 and ?w2.0 = zeroApp and c = 0 and force = False
      and newValue = 7, THEN conjunct2, THEN conjunct2, rule_format]
  have b1: "out = (Inl (TypeError ''renderFn is not a function''), clearChildren 5 (snd pass))"
    "childrenOf (nodes (snd out)) 5 = []"
    unfolding out_def using b h2 ep [unfolded w1_def] by blast+
  have c1: "notifyElement 0 3 zeroApp = (Inr (), zeroApp)"
    "nodes (snd (State_set 0 7 False zeroApp)) ! 3 = nodes zeroApp ! 3"
    using c z1(3,4) z2 by blast+
  have "(fst r1 = Inr 3
      \<and> typeOf (VStr ''hello'') \<noteq> ''function''
      \<and> renderOf (nodes (snd (snd r1))) 3 = VStr ''hello'')
   \<and> (5 \<in> set (querySelectorAll mixedApp)
      \<and> eligible mixedApp 0 5
      \<and> typeOf (renderOf (nodes mixedApp) 5) \<noteq> ''function''
      \<and> stateId (cells mixedApp 0) \<noteq> Some []
      \<and> (False \<or> \<not> compare (cells mixedApp 0) (cvalue (cells mixedApp 0)) 7)
      \<and> takeWhile (\<lambda>x. x \<noteq> 5) (querySelectorAll mixedApp) = [3]
      \<and> eligible mixedApp 0 3
      \<and> fst pass = Inr ()
      \<and> childrenOf (nodes mixedApp) 3 = [4]
      \<and> childrenOf (nodes mixedApp) 5 = [6]
      \<and> out = (Inl (TypeError ''renderFn is not a function''), clearChildren 5 (snd pass))
      \<and> childrenOf (nodes (snd out)) 3 = [7]
      \<and> childrenOf (nodes (snd out)) 5 = [])
   \<and> (5 \<in> set (querySelectorAll twoLitApp)
      \<and> eligible twoLitApp 0 5
      \<and> typeOf (renderOf (nodes twoLitApp) 5) \<noteq> ''function''
      \<and> stateId (cells twoLitApp 0) \<noteq> Some []
      \<and> takeWhile (\<lambda>x. x \<noteq> 5) (querySelectorAll twoLitApp) = [3]
      \<and> fst pass2 = Inl (TypeError ''renderFn is not a function'')
      \<and> out2 = (Inl (TypeError ''renderFn is not a function''), snd pass2)
      \<and> childrenOf (nodes (snd out2)) 5 = [6])
   \<and> (attributeOf (nodes zeroApp) 3 ''data-rsf-watching'' = Some ''state-0''
      \<and> stateId (cells zeroApp 0) = Some ''state-0''
      \<and> \<not> truthy (renderOf (nodes zeroApp) 3)
      \<and> 3 < length (nodes zeroApp)
      \<and> notifyElement 0 3 zeroApp = (Inr (), zeroApp)
      \<and> nodes (snd (State_set 0 7 False zeroApp)) ! 3 = nodes zeroApp ! 3)"
    using f1 t1 a h2 pre h3 fp b1 c3 g2 pre2 fp2 b3 c5 z1 c1 by blast
  then show ?thesis unfolding r1_def out_def pass_def w1_def out2_def pass2_def w2_def .
qed

theorem literal_rebuild_procedure_counterexample:
  "(let first = rsf idSelector ''#a'' zeroWatcher [] page;
        w = snd first;
        after = State_set 0 7 False w
    in fst first = Inr 0
     \<and> renderOf (nodes w) 3 = VNum 0
     \<and> attributeOf (nodes w) 3 ''data-rsf-watching'' = Some ''state-0''
     \<and> stateId (cells w 0) = Some ''state-0''
     \<and> 3 \<in> set (querySelectorAll w)
     \<and> \<not> compare (cells w 0) (cvalue (cells w 0)) 7
     \<and> fst after = Inr ()
     \<and> childrenOf (nodes w) 3 = [4]
     \<and> childrenOf (nodes (snd after)) 3 = [4]
     \<and> nodes (snd after) ! 4 = TextNode ''0'')
   \<and> (let first = rsf idSelector ''#a'' twoLiterals [] page;
        w = snd first;
        after = State_set 0 7 False w
    in fst first = Inr 0
     \<and> querySelectorAll w = [3, 5]
     \<and> renderOf (nodes w) 3 = VStr ''hello''
     \<and> renderOf (nodes w) 5 = VStr ''world''
     \<and> attributeOf (nodes w) 5 ''data-rsf-watching'' = Some ''state-0''
     \<and> stateId (cells w 0) = Some ''state-0''
     \<and> \<not> compare (cells w 0) (cvalue (cells w 0)) 7
     \<and> fst after = Inl (TypeError ''renderFn is not a function'')
     \<and> childrenOf (nodes (snd after)) 3 = []
     \<and> childrenOf (nodes w) 5 = [6]
     \<and> childrenOf (nodes (snd after)) 5 = [6]
     \<and> nodes (snd after) ! 6 = TextNode ''world'')"
  by code_simp

end
